theory Spec2Isabelle
  imports Main "HOL-Library.Word"
begin

unbundle bit_operations_syntax

section \<open>Bytes, readers and errors\<close>

text \<open>
  A Go \<^verbatim>\<open>byte\<close> is an 8-bit word, \<^verbatim>\<open>uint16\<close>/\<^verbatim>\<open>int16\<close> a 16-bit word and
  \<^verbatim>\<open>uint32\<close> a 32-bit word (a signed field is read with \<open>sint\<close>, an unsigned one
  with \<open>unat\<close>; the bits are the same). An \<^verbatim>\<open>io.Reader\<close> over a finite byte
  source (the \<^verbatim>\<open>bytes.Reader\<close> of \<^verbatim>\<open>chunk.newReader\<close>) is the list of the
  bytes not yet read; every read returns the bytes it took and the rest.
\<close>

type_synonym byte = "8 word"
type_synonym reader = "byte list"

text \<open>A chunk id, \<^verbatim>\<open>[4]byte\<close>; \<open>tag ''smpl''\<close> is \<^verbatim>\<open>[4]byte{'s','m','p','l'}\<close>.\<close>

definition tag :: "string \<Rightarrow> byte list" where
  "tag s = map of_char s"

text \<open>
  The errors of the decoders. \<open>EOF\<close> and \<open>ErrUnexpectedEOF\<close> are the two values of
  package \<^verbatim>\<open>io\<close>; the others are the \<^verbatim>\<open>fmt.Errorf\<close> messages of the source, with
  their arguments.
\<close>

datatype error =
    EOF
  | ErrUnexpectedEOF
  | ExpectedChunkId "byte list" "byte list"
  | ExpectedInfo
  | DuplicateChunk "byte list"
  | MustContain4 string
  | MustContainOrFewer string nat
  | IfilMissing
  | InvalidSize string "32 word"
  | MissingChunk "byte list"

text \<open>
  \<^verbatim>\<open>io.ReadFull(r, buf)\<close> with \<open>len(buf) = n\<close>: reads exactly \<open>n\<close> bytes. With
  \<open>n = 0\<close> it reads nothing and succeeds; otherwise it fails with \<open>EOF\<close> when no
  byte at all is left and with \<open>ErrUnexpectedEOF\<close> when some, but fewer than \<open>n\<close>,
  are left.
\<close>

definition ReadFull :: "reader \<Rightarrow> nat \<Rightarrow> error + (byte list \<times> reader)" where
  "ReadFull r n =
     (if n \<le> length r then Inr (take n r, drop n r)
      else if r = [] then Inl EOF
      else Inl ErrUnexpectedEOF)"

text \<open>\<^verbatim>\<open>binary.LittleEndian.Uint16\<close> and \<^verbatim>\<open>Uint32\<close> on a buffer of 2 and 4 bytes.\<close>

definition Uint16 :: "byte list \<Rightarrow> 16 word" where
  "Uint16 b = ucast (b ! 0) OR push_bit 8 (ucast (b ! 1))"

definition Uint32 :: "byte list \<Rightarrow> 32 word" where
  "Uint32 b = ucast (b ! 0) OR push_bit 8 (ucast (b ! 1))
     OR push_bit 16 (ucast (b ! 2)) OR push_bit 24 (ucast (b ! 3))"

section \<open>Chunk reader (chunk.go)\<close>

record chunk =
  id_ck :: "byte list"
  size_ck :: "32 word"
  data_ck :: "byte list"

text \<open>
  \<^verbatim>\<open>chunk.parse\<close>: the id (4 bytes), the size (\<^verbatim>\<open>binary.Read\<close> of a \<^verbatim>\<open>uint32\<close>,
  which is a \<^verbatim>\<open>ReadFull\<close> of 4 bytes), then \<open>size\<close> bytes of data. Each read
  returns its own error unchanged.
\<close>

definition parse :: "reader \<Rightarrow> error + (chunk \<times> reader)" where
  "parse r =
     (case ReadFull r 4 of
        Inl err \<Rightarrow> Inl err
      | Inr (idb, r1) \<Rightarrow>
          (case ReadFull r1 4 of
             Inl err \<Rightarrow> Inl err
           | Inr (szb, r2) \<Rightarrow>
               (case ReadFull r2 (unat (Uint32 szb)) of
                  Inl err \<Rightarrow> Inl err
                | Inr (d, r3) \<Rightarrow>
                    Inr (\<lparr>id_ck = idb, size_ck = Uint32 szb, data_ck = d\<rparr>, r3))))"

text \<open>\<^verbatim>\<open>chunk.expect\<close>: parse, then compare the id.\<close>

definition expect :: "reader \<Rightarrow> byte list \<Rightarrow> error + (chunk \<times> reader)" where
  "expect r i =
     (case parse r of
        Inl err \<Rightarrow> Inl err
      | Inr (ch, r') \<Rightarrow>
          if id_ck ch \<noteq> i then Inl (ExpectedChunkId i (id_ck ch)) else Inr (ch, r'))"

section \<open>Sample decoder (samples.go)\<close>

record SoundFontSamples =
  SamplesHigher :: "16 word list"
  SamplesLower :: "8 word list"

text \<open>
  The first loop of \<^verbatim>\<open>ReadSoundFontSamples\<close>: \<open>size/2\<close> samples, sample \<open>i\<close> being
  \<^verbatim>\<open>int16(data[i*2+1])<<8 | int16(data[i*2])<<8\<close>.
\<close>

definition smpl_sample :: "byte list \<Rightarrow> nat \<Rightarrow> 16 word" where
  "smpl_sample d i = push_bit 8 (ucast (d ! (i * 2 + 1))) OR push_bit 8 (ucast (d ! (i * 2)))"

definition smpl_samples :: "chunk \<Rightarrow> 16 word list" where
  "smpl_samples smplHeader =
     map (smpl_sample (data_ck smplHeader)) [0 ..< unat (size_ck smplHeader div 2)]"

text \<open>The second loop: \<open>size\<close> values, \<^verbatim>\<open>int8(data[i])\<close>.\<close>

definition sm24_samples :: "chunk \<Rightarrow> 8 word list" where
  "sm24_samples sm24Header =
     map (\<lambda>i. data_ck sm24Header ! i) [0 ..< unat (size_ck sm24Header)]"

definition ReadSoundFontSamples :: "reader \<Rightarrow> error + SoundFontSamples" where
  "ReadSoundFontSamples r =
     (case expect r (tag ''smpl'') of
        Inl err \<Rightarrow> Inl err
      | Inr (smplHeader, r1) \<Rightarrow>
          (case expect r1 (tag ''sm24'') of
             Inl err \<Rightarrow>
               if err = EOF
               then Inr \<lparr>SamplesHigher = smpl_samples smplHeader, SamplesLower = []\<rparr>
               else Inl err
           | Inr (sm24Header, r2) \<Rightarrow>
               Inr \<lparr>SamplesHigher = smpl_samples smplHeader,
                    SamplesLower = sm24_samples sm24Header\<rparr>))"

section \<open>Hydra decoder\<close>

subsection \<open>Record types\<close>

record PresetHeader =
  PresetName :: "byte list"
  Preset :: "16 word"
  Bank :: "16 word"
  PresetBagNdx :: "16 word"
  Library :: "32 word"
  Genre :: "32 word"
  Morphology :: "32 word"

record PBagEntry =
  GenIndex :: "16 word"
  ModIndex :: "16 word"

record Modulator =
  ModSrcOper :: "16 word"
  ModDestOper :: "16 word"
  ModAmount :: "16 word"
  ModAmtSrcOper :: "16 word"
  ModTransOper :: "16 word"

record Generator =
  GenOper :: "16 word"
  GenAmount :: "16 word"

record Instrument =
  Name :: "byte list"
  InstBagNdx :: "16 word"

record IBagEntry =
  InstGenIndex :: "16 word"
  InstModIndex :: "16 word"

record SampleHeader =
  SampleName :: "byte list"
  Start :: "32 word"
  End :: "32 word"
  Startloop :: "32 word"
  Endloop :: "32 word"
  SampleRate :: "32 word"
  OriginalPitch :: "8 word"
  PitchCorrection :: "8 word"
  SampleLink :: "16 word"
  SampleType :: "16 word"

record SoundFontHydra =
  Headers :: "PresetHeader list"
  PBag :: "PBagEntry list"
  PresetModulators :: "Modulator list"
  PresetGenerators :: "Generator list"
  Instuments :: "Instrument list"
  IBag :: "IBagEntry list"
  InstrumentModulators :: "Modulator list"
  InstrumentGenerators :: "Generator list"
  Samples :: "SampleHeader list"

subsection \<open>Reading one record\<close>

text \<open>
  \<^verbatim>\<open>binary.Read(r, binary.LittleEndian, &v)\<close> for a struct \<open>v\<close> of fixed size: a
  \<^verbatim>\<open>ReadFull\<close> of the struct's size (its error returned unchanged), then the
  fields in declaration order, without padding, each little-endian.
\<close>

definition read_PresetHeader :: "reader \<Rightarrow> error + (PresetHeader \<times> reader)" where
  "read_PresetHeader r =
     (case ReadFull r 38 of
        Inl err \<Rightarrow> Inl err
      | Inr (b, r') \<Rightarrow>
          Inr (\<lparr>PresetName = take 20 b,
                Preset = Uint16 (drop 20 b),
                Bank = Uint16 (drop 22 b),
                PresetBagNdx = Uint16 (drop 24 b),
                Library = Uint32 (drop 26 b),
                Genre = Uint32 (drop 30 b),
                Morphology = Uint32 (drop 34 b)\<rparr>, r'))"

definition read_Modulator :: "reader \<Rightarrow> error + (Modulator \<times> reader)" where
  "read_Modulator r =
     (case ReadFull r 10 of
        Inl err \<Rightarrow> Inl err
      | Inr (b, r') \<Rightarrow>
          Inr (\<lparr>ModSrcOper = Uint16 b,
                ModDestOper = Uint16 (drop 2 b),
                ModAmount = Uint16 (drop 4 b),
                ModAmtSrcOper = Uint16 (drop 6 b),
                ModTransOper = Uint16 (drop 8 b)\<rparr>, r'))"

definition read_Generator :: "reader \<Rightarrow> error + (Generator \<times> reader)" where
  "read_Generator r =
     (case ReadFull r 4 of
        Inl err \<Rightarrow> Inl err
      | Inr (b, r') \<Rightarrow>
          Inr (\<lparr>GenOper = Uint16 b, GenAmount = Uint16 (drop 2 b)\<rparr>, r'))"

definition read_Instrument :: "reader \<Rightarrow> error + (Instrument \<times> reader)" where
  "read_Instrument r =
     (case ReadFull r 22 of
        Inl err \<Rightarrow> Inl err
      | Inr (b, r') \<Rightarrow>
          Inr (\<lparr>Name = take 20 b, InstBagNdx = Uint16 (drop 20 b)\<rparr>, r'))"

definition read_SampleHeader :: "reader \<Rightarrow> error + (SampleHeader \<times> reader)" where
  "read_SampleHeader r =
     (case ReadFull r 46 of
        Inl err \<Rightarrow> Inl err
      | Inr (b, r') \<Rightarrow>
          Inr (\<lparr>SampleName = take 20 b,
                Start = Uint32 (drop 20 b),
                End = Uint32 (drop 24 b),
                Startloop = Uint32 (drop 28 b),
                Endloop = Uint32 (drop 32 b),
                SampleRate = Uint32 (drop 36 b),
                OriginalPitch = b ! 40,
                PitchCorrection = b ! 41,
                SampleLink = Uint16 (drop 42 b),
                SampleType = Uint16 (drop 44 b)\<rparr>, r'))"

text \<open>
  The loop \<^verbatim>\<open>for i := 0; i < len(a); i++ { binary.Read(chunkReader, ..., &a[i]) }\<close>
  over a slice of \<open>n\<close> records: the first error ends the decode.
\<close>

fun read_records :: "(reader \<Rightarrow> error + ('a \<times> reader)) \<Rightarrow> nat \<Rightarrow> reader \<Rightarrow> error + 'a list" where
  "read_records rd 0 r = Inr []"
| "read_records rd (Suc n) r =
     (case rd r of
        Inl err \<Rightarrow> Inl err
      | Inr (x, r') \<Rightarrow>
          (case read_records rd n r' of
             Inl err \<Rightarrow> Inl err
           | Inr xs \<Rightarrow> Inr (x # xs)))"

text \<open>
  The two bag arrays are filled by hand from \<open>chunk.data\<close>:
  \<^verbatim>\<open>uint16(data[4*i+1])<<8 | uint16(data[4*i])\<close> and the same at offsets 3 and 2.
\<close>

definition pbag_entry :: "byte list \<Rightarrow> nat \<Rightarrow> PBagEntry" where
  "pbag_entry d i =
     \<lparr>GenIndex = push_bit 8 (ucast (d ! (4 * i + 1))) OR ucast (d ! (4 * i)),
      ModIndex = push_bit 8 (ucast (d ! (4 * i + 3))) OR ucast (d ! (4 * i + 2))\<rparr>"

definition ibag_entry :: "byte list \<Rightarrow> nat \<Rightarrow> IBagEntry" where
  "ibag_entry d i =
     \<lparr>InstGenIndex = push_bit 8 (ucast (d ! (4 * i + 1))) OR ucast (d ! (4 * i)),
      InstModIndex = push_bit 8 (ucast (d ! (4 * i + 3))) OR ucast (d ! (4 * i + 2))\<rparr>"

subsection \<open>The switch on the chunk id\<close>

text \<open>
  The body of the \<^verbatim>\<open>switch chunk.id\<close> of \<^verbatim>\<open>ReadSoundFontHydra\<close>, in the order
  of its cases; the error carries the words of the message (\<^verbatim>\<open>invalid preset
  header size %d\<close>) and the size. A decoded array replaces the field of \<open>sound\<close>.
\<close>

definition hydra_chunk :: "chunk \<Rightarrow> SoundFontHydra \<Rightarrow> error + SoundFontHydra" where
  "hydra_chunk ck sound =
    (if id_ck ck = tag ''phdr'' then
       if size_ck ck mod 38 \<noteq> 0 then Inl (InvalidSize ''preset header'' (size_ck ck))
       else (case read_records read_PresetHeader (unat (size_ck ck div 38)) (data_ck ck) of
               Inl err \<Rightarrow> Inl err
             | Inr a \<Rightarrow> Inr (sound\<lparr>Headers := a\<rparr>))
     else if id_ck ck = tag ''pbag'' then
       if size_ck ck mod 4 \<noteq> 0 then Inl (InvalidSize ''preset bag'' (size_ck ck))
       else Inr (sound\<lparr>PBag := map (pbag_entry (data_ck ck)) [0 ..< unat (size_ck ck div 4)]\<rparr>)
     else if id_ck ck = tag ''pmod'' then
       if size_ck ck mod 10 \<noteq> 0 then Inl (InvalidSize ''preset modulator'' (size_ck ck))
       else (case read_records read_Modulator (unat (size_ck ck div 10)) (data_ck ck) of
               Inl err \<Rightarrow> Inl err
             | Inr a \<Rightarrow> Inr (sound\<lparr>PresetModulators := a\<rparr>))
     else if id_ck ck = tag ''pgen'' then
       if size_ck ck mod 4 \<noteq> 0 then Inl (InvalidSize ''preset generator'' (size_ck ck))
       else (case read_records read_Generator (unat (size_ck ck div 4)) (data_ck ck) of
               Inl err \<Rightarrow> Inl err
             | Inr a \<Rightarrow> Inr (sound\<lparr>PresetGenerators := a\<rparr>))
     else if id_ck ck = tag ''inst'' then
       if size_ck ck mod 22 \<noteq> 0 then Inl (InvalidSize ''instrument header'' (size_ck ck))
       else (case read_records read_Instrument (unat (size_ck ck div 22)) (data_ck ck) of
               Inl err \<Rightarrow> Inl err
             | Inr a \<Rightarrow> Inr (sound\<lparr>Instuments := a\<rparr>))
     else if id_ck ck = tag ''ibag'' then
       if size_ck ck mod 4 \<noteq> 0 then Inl (InvalidSize ''preset bag'' (size_ck ck))
       else Inr (sound\<lparr>IBag := map (ibag_entry (data_ck ck)) [0 ..< unat (size_ck ck div 4)]\<rparr>)
     else if id_ck ck = tag ''imod'' then
       if size_ck ck mod 10 \<noteq> 0 then Inl (InvalidSize ''preset modulator'' (size_ck ck))
       else (case read_records read_Modulator (unat (size_ck ck div 10)) (data_ck ck) of
               Inl err \<Rightarrow> Inl err
             | Inr a \<Rightarrow> Inr (sound\<lparr>InstrumentModulators := a\<rparr>))
     else if id_ck ck = tag ''igen'' then
       if size_ck ck mod 4 \<noteq> 0 then Inl (InvalidSize ''preset generator'' (size_ck ck))
       else (case read_records read_Generator (unat (size_ck ck div 4)) (data_ck ck) of
               Inl err \<Rightarrow> Inl err
             | Inr a \<Rightarrow> Inr (sound\<lparr>InstrumentGenerators := a\<rparr>))
     else if id_ck ck = tag ''shdr'' then
       if size_ck ck mod 46 \<noteq> 0 then Inl (InvalidSize ''sample header'' (size_ck ck))
       else (case read_records read_SampleHeader (unat (size_ck ck div 46)) (data_ck ck) of
               Inl err \<Rightarrow> Inl err
             | Inr a \<Rightarrow> Inr (sound\<lparr>Samples := a\<rparr>))
     else Inr sound)"

subsection \<open>The chunk loop and the presence check\<close>

text \<open>
  \<open>pdtaChunks\<close>, a Go \<^verbatim>\<open>map[[4]byte]bool\<close>: the nine ids, each not yet seen.
\<close>

definition pdtaChunks_init :: "byte list \<rightharpoonup> bool" where
  "pdtaChunks_init =
     [tag ''phdr'' \<mapsto> False, tag ''pbag'' \<mapsto> False, tag ''pmod'' \<mapsto> False,
      tag ''pgen'' \<mapsto> False, tag ''inst'' \<mapsto> False, tag ''ibag'' \<mapsto> False,
      tag ''imod'' \<mapsto> False, tag ''igen'' \<mapsto> False, tag ''shdr'' \<mapsto> False]"

definition sound_init :: SoundFontHydra where
  "sound_init =
     \<lparr>Headers = [], PBag = [], PresetModulators = [], PresetGenerators = [],
      Instuments = [], IBag = [], InstrumentModulators = [], InstrumentGenerators = [],
      Samples = []\<rparr>"

text \<open>
  The \<^verbatim>\<open>for\<close> loop of \<^verbatim>\<open>ReadSoundFontHydra\<close>: \<open>EOF\<close> from \<open>parse\<close> ends the
  loop, any other error is returned; a chunk whose id is not a key of \<open>pdtaChunks\<close>
  is skipped; otherwise the id is marked and the chunk decoded. Every turn consumes
  at least the 8 bytes of a chunk header.
\<close>

function hydra_loop ::
  "reader \<Rightarrow> SoundFontHydra \<Rightarrow> (byte list \<rightharpoonup> bool)
     \<Rightarrow> error + (SoundFontHydra \<times> (byte list \<rightharpoonup> bool))" where
  "hydra_loop r sound pdtaChunks =
     (case parse r of
        Inl err \<Rightarrow> if err = EOF then Inr (sound, pdtaChunks) else Inl err
      | Inr (ck, r') \<Rightarrow>
          (case pdtaChunks (id_ck ck) of
             None \<Rightarrow> hydra_loop r' sound pdtaChunks
           | Some seen \<Rightarrow>
               (case hydra_chunk ck sound of
                  Inl err \<Rightarrow> Inl err
                | Inr sound' \<Rightarrow> hydra_loop r' sound' (pdtaChunks(id_ck ck \<mapsto> True)))))"
  by pat_completeness auto
termination
  by (relation "measure (\<lambda>(r, sound, pdtaChunks). length r)")
     (auto simp add: parse_def ReadFull_def split: if_splits)

text \<open>
  \<^verbatim>\<open>for ck, ok := range pdtaChunks { if !ok { return ... missing chunk } }\<close>. Go
  leaves the order in which \<^verbatim>\<open>range\<close> visits a map unspecified, so the order is
  a parameter: \<open>keys\<close> lists the keys of the map in the order of this run.
\<close>

fun range_missing :: "byte list list \<Rightarrow> (byte list \<rightharpoonup> bool) \<Rightarrow> error option" where
  "range_missing [] pdtaChunks = None"
| "range_missing (ck # keys) pdtaChunks =
     (if pdtaChunks ck = Some False then Some (MissingChunk ck)
      else range_missing keys pdtaChunks)"

definition range_order :: "byte list list \<Rightarrow> (byte list \<rightharpoonup> bool) \<Rightarrow> bool" where
  "range_order keys m \<longleftrightarrow> distinct keys \<and> set keys = dom m"

definition ReadSoundFontHydra :: "byte list list \<Rightarrow> reader \<Rightarrow> error + SoundFontHydra" where
  "ReadSoundFontHydra keys r =
     (case hydra_loop r sound_init pdtaChunks_init of
        Inl err \<Rightarrow> Inl err
      | Inr (sound, pdtaChunks) \<Rightarrow>
          (case range_missing keys pdtaChunks of
             Some err \<Rightarrow> Inl err
           | None \<Rightarrow> Inr sound))"

section \<open>Info decoder\<close>

text \<open>
  A Go \<^verbatim>\<open>string\<close> is a sequence of bytes; \<^verbatim>\<open>string(chunk.data)\<close> keeps every
  byte of the data, terminators included.
\<close>

definition string_of :: "byte list \<Rightarrow> string" where
  "string_of d = map (\<lambda>b. char_of (unat b)) d"

record Version =
  Major :: "16 word"
  Minor :: "16 word"

record SoundFontInfo =
  SfVersion :: Version
  Engine :: string
  Name :: string
  ROM :: string
  ROMVer :: Version
  CreationDate :: string
  Engineers :: string
  Product :: string
  Copyright :: string
  Comments :: string
  Software :: string

definition info_init :: SoundFontInfo where
  "info_init =
     \<lparr>SfVersion = \<lparr>Major = 0, Minor = 0\<rparr>, Engine = [], Name = [], ROM = [],
      ROMVer = \<lparr>Major = 0, Minor = 0\<rparr>, CreationDate = [], Engineers = [], Product = [],
      Copyright = [], Comments = [], Software = []\<rparr>"

definition infoChunks_init :: "byte list \<rightharpoonup> bool" where
  "infoChunks_init =
     [tag ''ifil'' \<mapsto> False, tag ''isng'' \<mapsto> False, tag ''INAM'' \<mapsto> False,
      tag ''irom'' \<mapsto> False, tag ''iver'' \<mapsto> False, tag ''ICRD'' \<mapsto> False,
      tag ''IENG'' \<mapsto> False, tag ''IPRD'' \<mapsto> False, tag ''ICOP'' \<mapsto> False,
      tag ''ICMT'' \<mapsto> False, tag ''ISFT'' \<mapsto> False]"

text \<open>\<^verbatim>\<open>Expect\<close>: reads \<open>len(b)\<close> bytes and tells whether they are \<open>b\<close>.\<close>

definition Expect :: "reader \<Rightarrow> byte list \<Rightarrow> error + (bool \<times> reader)" where
  "Expect r b =
     (case ReadFull r (length b) of
        Inl err \<Rightarrow> Inl err
      | Inr (buf, r') \<Rightarrow> Inr (buf = b, r'))"

text \<open>The version pair of \<open>ifil\<close> and \<open>iver\<close>, from the four bytes of the data.\<close>

definition version_of :: "byte list \<Rightarrow> Version" where
  "version_of d =
     \<lparr>Major = push_bit 8 (ucast (d ! 1)) OR ucast (d ! 0),
      Minor = push_bit 8 (ucast (d ! 3)) OR ucast (d ! 2)\<rparr>"

text \<open>The \<^verbatim>\<open>switch chunk.id\<close> of \<^verbatim>\<open>ReadSoundFontInfo\<close>, in the order of its cases.\<close>

definition info_chunk :: "chunk \<Rightarrow> SoundFontInfo \<Rightarrow> error + SoundFontInfo" where
  "info_chunk ck info =
    (if id_ck ck = tag ''ifil'' then
       if size_ck ck \<noteq> 4 then Inl (MustContain4 ''ifil'')
       else Inr (info\<lparr>SfVersion := version_of (data_ck ck)\<rparr>)
     else if id_ck ck = tag ''isng'' then
       if size_ck ck > 256 then Inl (MustContainOrFewer ''isng'' 256)
       else Inr (info\<lparr>Engine := string_of (data_ck ck)\<rparr>)
     else if id_ck ck = tag ''INAM'' then
       if size_ck ck > 256 then Inl (MustContainOrFewer ''Inam'' 256)
       else Inr (info\<lparr>Name := string_of (data_ck ck)\<rparr>)
     else if id_ck ck = tag ''irom'' then
       if size_ck ck > 256 then Inl (MustContainOrFewer ''irom'' 256)
       else Inr (info\<lparr>ROM := string_of (data_ck ck)\<rparr>)
     else if id_ck ck = tag ''iver'' then
       if size_ck ck \<noteq> 4 then Inl (MustContain4 ''iver'')
       else Inr (info\<lparr>ROMVer := version_of (data_ck ck)\<rparr>)
     else if id_ck ck = tag ''ICRD'' then
       if size_ck ck > 256 then Inl (MustContainOrFewer ''ICRD'' 256)
       else Inr (info\<lparr>CreationDate := string_of (data_ck ck)\<rparr>)
     else if id_ck ck = tag ''IENG'' then
       if size_ck ck > 256 then Inl (MustContainOrFewer ''IENG'' 256)
       else Inr (info\<lparr>Engineers := string_of (data_ck ck)\<rparr>)
     else if id_ck ck = tag ''IPRD'' then
       if size_ck ck > 256 then Inl (MustContainOrFewer ''IPRD'' 256)
       else Inr (info\<lparr>Product := string_of (data_ck ck)\<rparr>)
     else if id_ck ck = tag ''ICOP'' then
       if size_ck ck > 256 then Inl (MustContainOrFewer ''ICOP'' 256)
       else Inr (info\<lparr>Copyright := string_of (data_ck ck)\<rparr>)
     else if id_ck ck = tag ''ICMT'' then
       if size_ck ck > 65536 then Inl (MustContainOrFewer ''ICMT'' 65536)
       else Inr (info\<lparr>Comments := string_of (data_ck ck)\<rparr>)
     else if id_ck ck = tag ''ISFT'' then
       if size_ck ck > 256 then Inl (MustContainOrFewer ''ISFT'' 256)
       else Inr (info\<lparr>Software := string_of (data_ck ck)\<rparr>)
     else Inr info)"

text \<open>
  The \<^verbatim>\<open>for\<close> loop of \<^verbatim>\<open>ReadSoundFontInfo\<close>: as in the Hydra decoder, but an id
  already marked ends the decode with the duplicate error.
\<close>

function info_loop ::
  "reader \<Rightarrow> SoundFontInfo \<Rightarrow> (byte list \<rightharpoonup> bool)
     \<Rightarrow> error + (SoundFontInfo \<times> (byte list \<rightharpoonup> bool))" where
  "info_loop r info infoChunks =
     (case parse r of
        Inl err \<Rightarrow> if err = EOF then Inr (info, infoChunks) else Inl err
      | Inr (ck, r') \<Rightarrow>
          (case infoChunks (id_ck ck) of
             None \<Rightarrow> info_loop r' info infoChunks
           | Some seen \<Rightarrow>
               if seen then Inl (DuplicateChunk (id_ck ck))
               else (case info_chunk ck info of
                       Inl err \<Rightarrow> Inl err
                     | Inr info' \<Rightarrow> info_loop r' info' (infoChunks(id_ck ck \<mapsto> True)))))"
  by pat_completeness auto
termination
  by (relation "measure (\<lambda>(r, info, infoChunks). length r)")
     (auto simp add: parse_def ReadFull_def split: if_splits)

text \<open>
  \<^verbatim>\<open>ReadSoundFontInfo\<close>. A lookup \<^verbatim>\<open>infoChunks[k]\<close> is \<open>true\<close> only for a key that
  has been marked.
\<close>

definition ReadSoundFontInfo :: "reader \<Rightarrow> error + SoundFontInfo" where
  "ReadSoundFontInfo r =
     (case Expect r (tag ''INFO'') of
        Inl err \<Rightarrow> Inl err
      | Inr (ok, r1) \<Rightarrow>
          if \<not> ok then Inl ExpectedInfo
          else (case info_loop r1 info_init infoChunks_init of
                  Inl err \<Rightarrow> Inl err
                | Inr (info, infoChunks) \<Rightarrow>
                    if infoChunks (tag ''ifil'') \<noteq> Some True then Inl IfilMissing
                    else if infoChunks (tag ''isng'') \<noteq> Some True
                    then Inr (info\<lparr>Engine := ''EMU8000''\<rparr>)
                    else Inr info))"

section \<open>Inputs as sequences of chunks\<close>

text \<open>
  The definitions of this section are not part of the program; they describe its
  inputs, so that the theorems can speak of the chunks of an input. The bytes of a
  chunk are its id, its size as four little-endian bytes, and its data; a chunk is
  well formed when its id has four bytes and its data has as many bytes as its size
  says (what \<open>parse\<close> returns is always so).
\<close>

definition le16 :: "16 word \<Rightarrow> byte list" where
  "le16 w = [ucast w, ucast (drop_bit 8 w)]"

definition le32 :: "32 word \<Rightarrow> byte list" where
  "le32 w = [ucast w, ucast (drop_bit 8 w), ucast (drop_bit 16 w), ucast (drop_bit 24 w)]"

definition chunk_bytes :: "chunk \<Rightarrow> byte list" where
  "chunk_bytes ck = id_ck ck @ le32 (size_ck ck) @ data_ck ck"

definition wf_chunk :: "chunk \<Rightarrow> bool" where
  "wf_chunk ck \<longleftrightarrow> length (id_ck ck) = 4 \<and> length (data_ck ck) = unat (size_ck ck)"

definition chunk_list_bytes :: "chunk list \<Rightarrow> byte list" where
  "chunk_list_bytes cks = concat (map chunk_bytes cks)"

text \<open>
  The chunks that successive calls of \<open>parse\<close> return on an input, up to the first
  call that fails, and the error of that call.
\<close>

function read_chunks :: "reader \<Rightarrow> chunk list" where
  "read_chunks r =
     (case parse r of
        Inl err \<Rightarrow> []
      | Inr (ck, r') \<Rightarrow> ck # read_chunks r')"
  by pat_completeness auto
termination
  by (relation "measure length") (auto simp add: parse_def ReadFull_def split: if_splits)

function read_stop :: "reader \<Rightarrow> error" where
  "read_stop r =
     (case parse r of
        Inl err \<Rightarrow> err
      | Inr (ck, r') \<Rightarrow> read_stop r')"
  by pat_completeness auto
termination
  by (relation "measure length") (auto simp add: parse_def ReadFull_def split: if_splits)

text \<open>The last chunk of a list that bears a given id, if there is one.\<close>

definition last_chunk :: "byte list \<Rightarrow> chunk list \<Rightarrow> chunk option" where
  "last_chunk t cks = find (\<lambda>ck. id_ck ck = t) (rev cks)"

subsection \<open>The Hydra arrays and their record widths\<close>

text \<open>One of the nine arrays of a decoded Hydra, whatever its record type.\<close>

datatype hydra_array =
    PresetHeaders "PresetHeader list"
  | PBagEntries "PBagEntry list"
  | Modulators "Modulator list"
  | Generators "Generator list"
  | Instruments "Instrument list"
  | IBagEntries "IBagEntry list"
  | SampleHeaders "SampleHeader list"

fun array_length :: "hydra_array \<Rightarrow> nat" where
  "array_length (PresetHeaders a) = length a"
| "array_length (PBagEntries a) = length a"
| "array_length (Modulators a) = length a"
| "array_length (Generators a) = length a"
| "array_length (Instruments a) = length a"
| "array_length (IBagEntries a) = length a"
| "array_length (SampleHeaders a) = length a"


text \<open>The array that the chunk with id \<open>t\<close> fills.\<close>

definition array_of :: "byte list \<Rightarrow> SoundFontHydra \<Rightarrow> hydra_array option" where
  "array_of t sound =
    (if t = tag ''phdr'' then Some (PresetHeaders (Headers sound))
     else if t = tag ''pbag'' then Some (PBagEntries (PBag sound))
     else if t = tag ''pmod'' then Some (Modulators (PresetModulators sound))
     else if t = tag ''pgen'' then Some (Generators (PresetGenerators sound))
     else if t = tag ''inst'' then Some (Instruments (Instuments sound))
     else if t = tag ''ibag'' then Some (IBagEntries (IBag sound))
     else if t = tag ''imod'' then Some (Modulators (InstrumentModulators sound))
     else if t = tag ''igen'' then Some (Generators (InstrumentGenerators sound))
     else if t = tag ''shdr'' then Some (SampleHeaders (Samples sound))
     else None)"

text \<open>The record width of each of the nine ids (the table of section 4.3).\<close>

definition hydra_widths :: "(byte list \<times> nat) list" where
  "hydra_widths =
     [(tag ''phdr'', 38), (tag ''pbag'', 4), (tag ''pmod'', 10), (tag ''pgen'', 4),
      (tag ''inst'', 22), (tag ''ibag'', 4), (tag ''imod'', 10), (tag ''igen'', 4),
      (tag ''shdr'', 46)]"

definition hydra_tags :: "byte list list" where
  "hydra_tags = map fst hydra_widths"

text \<open>A chunk with one of the nine ids whose size is a multiple of the record width.\<close>

definition sized_ok :: "chunk \<Rightarrow> bool" where
  "sized_ok ck =
     (case map_of hydra_widths (id_ck ck) of
        None \<Rightarrow> True
      | Some w \<Rightarrow> unat (size_ck ck) mod w = 0)"

subsection \<open>The loops over a list of chunks\<close>

text \<open>
  The body of the loop of \<open>ReadSoundFontHydra\<close> run over a list of chunks already
  parsed; \<open>hydra_loop\<close> is this over the chunks of its input.
\<close>

fun hydra_chunks ::
  "chunk list \<Rightarrow> SoundFontHydra \<Rightarrow> (byte list \<rightharpoonup> bool)
     \<Rightarrow> error + (SoundFontHydra \<times> (byte list \<rightharpoonup> bool))" where
  "hydra_chunks [] sound m = Inr (sound, m)"
| "hydra_chunks (ck # cks) sound m =
     (case m (id_ck ck) of
        None \<Rightarrow> hydra_chunks cks sound m
      | Some seen \<Rightarrow>
          (case hydra_chunk ck sound of
             Inl err \<Rightarrow> Inl err
           | Inr sound' \<Rightarrow> hydra_chunks cks sound' (m(id_ck ck \<mapsto> True))))"

text \<open>The same for the loop of \<open>ReadSoundFontInfo\<close>.\<close>

fun info_chunks ::
  "chunk list \<Rightarrow> SoundFontInfo \<Rightarrow> (byte list \<rightharpoonup> bool)
     \<Rightarrow> error + (SoundFontInfo \<times> (byte list \<rightharpoonup> bool))" where
  "info_chunks [] info m = Inr (info, m)"
| "info_chunks (ck # cks) info m =
     (case m (id_ck ck) of
        None \<Rightarrow> info_chunks cks info m
      | Some seen \<Rightarrow>
          if seen then Inl (DuplicateChunk (id_ck ck))
          else (case info_chunk ck info of
                  Inl err \<Rightarrow> Inl err
                | Inr info' \<Rightarrow> info_chunks cks info' (m(id_ck ck \<mapsto> True))))"

subsection \<open>Writing records\<close>

text \<open>
  Modelled from the spec: the repository has no encoder. These functions write a
  record in the layout of the table of section 4.3, field after field, every
  multi-byte field little-endian.
\<close>

definition encode_PresetHeader :: "PresetHeader \<Rightarrow> byte list" where
  "encode_PresetHeader p =
     PresetName p @ le16 (Preset p) @ le16 (Bank p) @ le16 (PresetBagNdx p)
       @ le32 (Library p) @ le32 (Genre p) @ le32 (Morphology p)"

definition encode_PBagEntry :: "PBagEntry \<Rightarrow> byte list" where
  "encode_PBagEntry b = le16 (GenIndex b) @ le16 (ModIndex b)"

definition encode_Modulator :: "Modulator \<Rightarrow> byte list" where
  "encode_Modulator m =
     le16 (ModSrcOper m) @ le16 (ModDestOper m) @ le16 (ModAmount m)
       @ le16 (ModAmtSrcOper m) @ le16 (ModTransOper m)"

definition encode_Generator :: "Generator \<Rightarrow> byte list" where
  "encode_Generator g = le16 (GenOper g) @ le16 (GenAmount g)"

definition encode_Instrument :: "Instrument \<Rightarrow> byte list" where
  "encode_Instrument i = Instrument.Name i @ le16 (InstBagNdx i)"

definition encode_IBagEntry :: "IBagEntry \<Rightarrow> byte list" where
  "encode_IBagEntry b = le16 (InstGenIndex b) @ le16 (InstModIndex b)"

definition encode_SampleHeader :: "SampleHeader \<Rightarrow> byte list" where
  "encode_SampleHeader s =
     SampleName s @ le32 (Start s) @ le32 (End s) @ le32 (Startloop s) @ le32 (Endloop s)
       @ le32 (SampleRate s) @ [OriginalPitch s] @ [PitchCorrection s]
       @ le16 (SampleLink s) @ le16 (SampleType s)"

text \<open>
  Modelled from the spec: the repository has no encoder. The bytes of an array are
  its records, written one after the other.
\<close>

fun encode_array :: "hydra_array \<Rightarrow> byte list" where
  "encode_array (PresetHeaders a) = concat (map encode_PresetHeader a)"
| "encode_array (PBagEntries a) = concat (map encode_PBagEntry a)"
| "encode_array (Modulators a) = concat (map encode_Modulator a)"
| "encode_array (Generators a) = concat (map encode_Generator a)"
| "encode_array (Instruments a) = concat (map encode_Instrument a)"
| "encode_array (IBagEntries a) = concat (map encode_IBagEntry a)"
| "encode_array (SampleHeaders a) = concat (map encode_SampleHeader a)"

subsection \<open>Example inputs\<close>

text \<open>A chunk with no data.\<close>

definition empty_chunk :: "string \<Rightarrow> chunk" where
  "empty_chunk s = \<lparr>id_ck = tag s, size_ck = 0, data_ck = []\<rparr>"

section \<open>Facts about the chunk reader\<close>

text \<open>
  Reading back the four size bytes gives the size, and the other way round; hence
  \<open>parse\<close> returns a chunk and the rest of the input exactly when the input is
  the bytes of a well-formed chunk followed by that rest.
\<close>

lemma length_le32: "length (le32 w) = 4"
  by (simp add: le32_def)

lemma Uint32_le32: "Uint32 (le32 w @ r) = w"
proof -
  have "ucast (ucast w :: byte) OR push_bit 8 (ucast (ucast (drop_bit 8 w) :: byte))
     OR push_bit 16 (ucast (ucast (drop_bit 16 w) :: byte))
     OR push_bit 24 (ucast (ucast (drop_bit 24 w) :: byte)) = w"
  proof (rule bit_word_eqI)
    fix n :: nat
    assume "n < LENGTH(32)"
    then consider "n < 8" | "8 \<le> n" "n < 16" | "16 \<le> n" "n < 24" | "24 \<le> n" "n < 32"
      by fastforce
    then show "bit (ucast (ucast w :: byte) OR push_bit 8 (ucast (ucast (drop_bit 8 w) :: byte))
     OR push_bit 16 (ucast (ucast (drop_bit 16 w) :: byte))
     OR push_bit 24 (ucast (ucast (drop_bit 24 w) :: byte)) :: 32 word) n = bit w n"
      by cases (auto simp add: bit_simps)
  qed
  then show ?thesis by (simp add: Uint32_def le32_def)
qed

lemma Uint32_le32_Nil: "Uint32 (le32 w) = w"
  using Uint32_le32 [of w "[]"] by simp

lemma le32_Uint32:
  assumes "4 \<le> length b" shows "le32 (Uint32 b) = take 4 b"
proof -
  from assms obtain b0 b1 b2 b3 bs where b: "b = b0 # b1 # b2 # b3 # bs"
    by (cases b; simp; rename_tac b1 bs1; case_tac bs1; simp; rename_tac b2 bs2;
        case_tac bs2; simp; rename_tac b3 bs3; case_tac bs3; simp)
  have "le32 (Uint32 (b0 # b1 # b2 # b3 # bs)) = [b0, b1, b2, b3]"
    unfolding Uint32_def le32_def
    apply simp
    apply (intro conjI bit_word_eqI)
       apply (auto simp add: bit_simps dest: bit_imp_le_length)
    done
  then show ?thesis using b by simp
qed

lemma ReadFull_append: "length a = n \<Longrightarrow> ReadFull (a @ r) n = Inr (a, r)"
  by (simp add: ReadFull_def)

lemma ReadFull_Inr_D: "ReadFull r n = Inr (a, r') \<Longrightarrow> length a = n \<and> r = a @ r'"
  by (auto simp add: ReadFull_def split: if_splits)

lemma parse_chunk_bytes:
  "wf_chunk ck \<Longrightarrow> parse (chunk_bytes ck @ r) = Inr (ck, r)"
  by (simp add: parse_def chunk_bytes_def wf_chunk_def ReadFull_append length_le32 Uint32_le32_Nil)

lemma parse_Inr_D:
  assumes "parse r = Inr (ck, r')"
  shows "wf_chunk ck \<and> r = chunk_bytes ck @ r'"
  using assms
  by (auto simp add: parse_def chunk_bytes_def wf_chunk_def le32_Uint32
      split: sum.splits prod.splits dest!: ReadFull_Inr_D)

lemma parse_Nil: "parse [] = Inl EOF"
  by (simp add: parse_def ReadFull_def)

lemma length_tag: "length (tag s) = length s"
  by (simp add: tag_def)

lemma tag_smpl_sm24: "tag ''sm24'' \<noteq> tag ''smpl''"
  by (simp add: tag_def)

text \<open>
  The loops unfold one chunk at a time; their defining equations are used with the
  input named, not as rewrite rules.
\<close>

declare hydra_loop.simps [simp del] info_loop.simps [simp del]
  read_chunks.simps [simp del] read_stop.simps [simp del]

text \<open>
  Both loops are the loop body run over the chunks that \<open>parse\<close> returns, followed
  by the error that ends the reading: \<open>EOF\<close> ends the loop, any other is returned.
\<close>

lemma hydra_loop_chunks:
  "hydra_loop r sound m =
     (case hydra_chunks (read_chunks r) sound m of
        Inl err \<Rightarrow> Inl err
      | Inr res \<Rightarrow> if read_stop r = EOF then Inr res else Inl (read_stop r))"
proof (induction r sound m rule: hydra_loop.induct)
  case (1 r sound m)
  show ?case
  proof (cases "parse r")
    case (Inl err)
    then show ?thesis
      by (simp add: hydra_loop.simps [of r] read_chunks.simps [of r] read_stop.simps [of r])
  next
    case (Inr p)
    then obtain ck r' where p: "parse r = Inr (ck, r')" by (cases p) simp
    have rc: "read_chunks r = ck # read_chunks r'"
      using p by (simp add: read_chunks.simps [of r])
    have rs: "read_stop r = read_stop r'"
      using p by (simp add: read_stop.simps [of r])
    show ?thesis
    proof (cases "m (id_ck ck)")
      case None
      note ih = "1.IH"(1) [OF p refl None]
      from p None show ?thesis
        unfolding rc rs by (simp add: hydra_loop.simps [of r] ih)
    next
      case (Some seen)
      show ?thesis
      proof (cases "hydra_chunk ck sound")
        case (Inl err)
        with p Some show ?thesis
          unfolding rc rs by (simp add: hydra_loop.simps [of r])
      next
        case (Inr sound')
        note ih = "1.IH"(2) [OF p refl Some Inr]
        from p Some Inr show ?thesis
          unfolding rc rs using ih by (simp add: hydra_loop.simps [of r] fun_upd_def)
      qed
    qed
  qed
qed

lemma info_loop_chunks:
  "info_loop r info m =
     (case info_chunks (read_chunks r) info m of
        Inl err \<Rightarrow> Inl err
      | Inr res \<Rightarrow> if read_stop r = EOF then Inr res else Inl (read_stop r))"
proof (induction r info m rule: info_loop.induct)
  case (1 r info m)
  show ?case
  proof (cases "parse r")
    case (Inl err)
    then show ?thesis
      by (simp add: info_loop.simps [of r] read_chunks.simps [of r] read_stop.simps [of r])
  next
    case (Inr p)
    then obtain ck r' where p: "parse r = Inr (ck, r')" by (cases p) simp
    have rc: "read_chunks r = ck # read_chunks r'"
      using p by (simp add: read_chunks.simps [of r])
    have rs: "read_stop r = read_stop r'"
      using p by (simp add: read_stop.simps [of r])
    show ?thesis
    proof (cases "m (id_ck ck)")
      case None
      note ih = "1.IH"(1) [OF p refl None]
      from p None show ?thesis
        unfolding rc rs by (simp add: info_loop.simps [of r] ih)
    next
      case (Some seen)
      show ?thesis
      proof (cases seen)
        case True
        with p Some show ?thesis
          unfolding rc rs by (simp add: info_loop.simps [of r])
      next
        case False
        show ?thesis
      proof (cases "info_chunk ck info")
        case (Inl err)
        with p Some False show ?thesis
          unfolding rc rs by (simp add: info_loop.simps [of r])
      next
        case (Inr info')
        note ih = "1.IH"(2) [OF p refl Some _ Inr]
        from p Some False Inr show ?thesis
          unfolding rc rs using ih by (simp add: info_loop.simps [of r] fun_upd_def)
      qed
      qed
    qed
  qed
qed

lemma read_chunks_bytes:
  "\<forall>ck\<in>set cks. wf_chunk ck \<Longrightarrow> parse tail = Inl err \<Longrightarrow>
     read_chunks (chunk_list_bytes cks @ tail) = cks \<and> read_stop (chunk_list_bytes cks @ tail) = err"
proof (induction cks)
  case Nil
  then show ?case
    by (simp add: chunk_list_bytes_def read_chunks.simps [of tail] read_stop.simps [of tail])
next
  case (Cons ck cks)
  then have "parse (chunk_list_bytes (ck # cks) @ tail) = Inr (ck, chunk_list_bytes cks @ tail)"
    using parse_chunk_bytes [of ck "chunk_list_bytes cks @ tail"]
    by (simp add: chunk_list_bytes_def)
  with Cons show ?case
    by (simp add: read_chunks.simps [of "chunk_list_bytes (ck # cks) @ tail"]
        read_stop.simps [of "chunk_list_bytes (ck # cks) @ tail"])
qed

lemma read_chunks_wf: "ck \<in> set (read_chunks r) \<Longrightarrow> wf_chunk ck"
proof (induction r rule: read_chunks.induct)
  case (1 r)
  show ?case
  proof (cases "parse r")
    case (Inl err)
    with "1.prems" show ?thesis by (simp add: read_chunks.simps [of r])
  next
    case (Inr p)
    then obtain c r' where p: "parse r = Inr (c, r')" by (cases p) simp
    with "1.prems" have "ck = c \<or> ck \<in> set (read_chunks r')"
      by (simp add: read_chunks.simps [of r])
    then show ?thesis
      using p parse_Inr_D [OF p] "1.IH" [of "(c, r')" c r'] by auto
  qed
qed

section \<open>The sample decoder\<close>

lemma sm24_samples_wf: "wf_chunk ck \<Longrightarrow> sm24_samples ck = data_ck ck"
  unfolding sm24_samples_def wf_chunk_def by (metis map_nth)

lemma unat_half: "unat ((w :: 32 word) div 2) = unat w div 2"
  by (simp add: unat_div)

text \<open>The samples of a chunk read only the first \<open>2 * (size div 2)\<close> bytes of its data.\<close>

lemma smpl_samples_take:
  "smpl_samples ck =
     map (smpl_sample (take (2 * (unat (size_ck ck) div 2)) (data_ck ck)))
       [0 ..< unat (size_ck ck) div 2]"
  by (simp add: smpl_samples_def smpl_sample_def unat_half)

text \<open>The low byte of every sample that the first loop computes is zero.\<close>

lemma smpl_sample_low_byte: "take_bit 8 (smpl_sample d i) = 0"
  unfolding smpl_sample_def
  by (rule bit_word_eqI) (auto simp add: bit_simps)

text \<open>
  Claim C1 (little-endian assembly of the 16-bit samples). The claim asks that the
  sample at index \<open>i\<close> has payload byte \<open>2i\<close> as its low byte and payload byte
  \<open>2i+1\<close> as its high byte. On a \<open>smpl\<close> chunk whose two payload bytes are
  \<open>0x34, 0x12\<close> the decoder returns one sample, as the claim says, but its value is
  \<open>0x3600\<close>: both bytes are shifted into the high byte and the low byte is zero.
  The little-endian value of the pair, \<open>0x12\<close> shifted by 8 or-ed with \<open>0x34\<close>,
  is \<open>0x1234\<close>.
\<close>

theorem smpl_sample_low_byte_shifted:
  "ReadSoundFontSamples (tag ''smpl'' @ [2, 0, 0, 0] @ [0x34, 0x12])
     = Inr \<lparr>SamplesHigher = [0x3600], SamplesLower = []\<rparr>
   \<and> (push_bit 8 (ucast (0x12 :: byte)) OR ucast (0x34 :: byte) :: 16 word) = 0x1234"
  by (simp add: ReadSoundFontSamples_def expect_def parse_def ReadFull_def Uint32_def
      tag_def smpl_samples_def smpl_sample_def)

text \<open>
  Claim C2 (the \<open>sm24\<close> length must equal the sample count) does not hold: the
  decoder never compares the two. With one 16-bit sample in \<open>smpl\<close> and two bytes
  in \<open>sm24\<close> the decode succeeds and returns both low bytes.
\<close>

theorem sm24_length_unchecked_counterexample:
  "ReadSoundFontSamples
     (tag ''smpl'' @ [2, 0, 0, 0] @ [0x34, 0x12] @ tag ''sm24'' @ [2, 0, 0, 0] @ [7, 8])
   = Inr \<lparr>SamplesHigher = [0x3600], SamplesLower = [7, 8]\<rparr>"
  by code_simp

text \<open>
  Claim C2 as amended: whenever a well-formed \<open>sm24\<close> chunk follows the \<open>smpl\<close>
  chunk, the decode succeeds whatever the length of the \<open>sm24\<close> payload, and the
  low-byte sequence is that payload, byte for byte (so its length is the declared
  \<open>sm24\<close> length, whatever the sample count; bytes after the \<open>sm24\<close> chunk are
  not read). When the input ends after the \<open>smpl\<close> chunk, the decode succeeds
  with an empty low-byte sequence.
\<close>

theorem sm24_length_unchecked:
  assumes "wf_chunk smpl" and "id_ck smpl = tag ''smpl''"
  shows "(wf_chunk sm24 \<and> id_ck sm24 = tag ''sm24'' \<longrightarrow>
            ReadSoundFontSamples (chunk_bytes smpl @ chunk_bytes sm24 @ rest)
              = Inr \<lparr>SamplesHigher = smpl_samples smpl, SamplesLower = data_ck sm24\<rparr>
            \<and> length (data_ck sm24) = unat (size_ck sm24))
       \<and> ReadSoundFontSamples (chunk_bytes smpl)
            = Inr \<lparr>SamplesHigher = smpl_samples smpl, SamplesLower = []\<rparr>"
proof (intro conjI impI)
  assume sm24: "wf_chunk sm24 \<and> id_ck sm24 = tag ''sm24''"
  have "expect (chunk_bytes smpl @ chunk_bytes sm24 @ rest) (tag ''smpl'')
          = Inr (smpl, chunk_bytes sm24 @ rest)"
    using assms by (simp add: expect_def parse_chunk_bytes)
  moreover have "expect (chunk_bytes sm24 @ rest) (tag ''sm24'') = Inr (sm24, rest)"
    using sm24 by (simp add: expect_def parse_chunk_bytes)
  ultimately show "ReadSoundFontSamples (chunk_bytes smpl @ chunk_bytes sm24 @ rest)
      = Inr \<lparr>SamplesHigher = smpl_samples smpl, SamplesLower = data_ck sm24\<rparr>"
    using sm24 by (simp add: ReadSoundFontSamples_def sm24_samples_wf)
  show "length (data_ck sm24) = unat (size_ck sm24)"
    using sm24 by (simp add: wf_chunk_def)
next
  have "expect (chunk_bytes smpl) (tag ''smpl'') = Inr (smpl, [])"
    using assms parse_chunk_bytes [of smpl "[]"] by (simp add: expect_def)
  moreover have "expect [] (tag ''sm24'') = Inl EOF"
    by (simp add: expect_def parse_Nil)
  ultimately show "ReadSoundFontSamples (chunk_bytes smpl)
      = Inr \<lparr>SamplesHigher = smpl_samples smpl, SamplesLower = []\<rparr>"
    by (simp add: ReadSoundFontSamples_def)
qed

theorem sm24_length_unchecked_witness:
  "ReadSoundFontSamples
     (chunk_bytes \<lparr>id_ck = tag ''smpl'', size_ck = 4, data_ck = [1, 2, 3, 4]\<rparr>
      @ chunk_bytes \<lparr>id_ck = tag ''sm24'', size_ck = 3, data_ck = [5, 6, 7]\<rparr> @ [])
   = Inr \<lparr>SamplesHigher = smpl_samples \<lparr>id_ck = tag ''smpl'', size_ck = 4, data_ck = [1, 2, 3, 4]\<rparr>,
          SamplesLower = [5, 6, 7]\<rparr>
   \<and> ReadSoundFontSamples (chunk_bytes \<lparr>id_ck = tag ''smpl'', size_ck = 4, data_ck = [1, 2, 3, 4]\<rparr>)
   = Inr \<lparr>SamplesHigher = smpl_samples \<lparr>id_ck = tag ''smpl'', size_ck = 4, data_ck = [1, 2, 3, 4]\<rparr>,
          SamplesLower = []\<rparr>"
  using sm24_length_unchecked [of "\<lparr>id_ck = tag ''smpl'', size_ck = 4, data_ck = [1, 2, 3, 4]\<rparr>"
      "\<lparr>id_ck = tag ''sm24'', size_ck = 3, data_ck = [5, 6, 7]\<rparr>" "[]"]
  by (simp add: wf_chunk_def length_tag)

text \<open>
  Claim C8 (a \<open>smpl\<close> chunk of odd length is rejected) does not hold: there is no
  parity check. A \<open>smpl\<close> chunk of three bytes decodes to one sample.
\<close>

theorem smpl_odd_length_counterexample:
  "ReadSoundFontSamples (tag ''smpl'' @ [3, 0, 0, 0] @ [1, 2, 3])
   = Inr \<lparr>SamplesHigher = [0x0300], SamplesLower = []\<rparr>"
  by (simp add: ReadSoundFontSamples_def expect_def parse_def ReadFull_def Uint32_def
      tag_def smpl_samples_def smpl_sample_def)

text \<open>
  Claim C8 as amended: the sample decoder accepts a \<open>smpl\<close> chunk of any declared
  byte length, even or odd: a \<open>smpl\<close> chunk alone decodes successfully, and every
  successful decode, whatever follows the chunk, produces the length divided by two,
  rounded down, samples. The samples are computed from the first twice that many
  payload bytes only, so for an odd length the final payload byte belongs to no
  sample: two \<open>smpl\<close> chunks of the same size that differ in that byte alone
  decode to the same samples.
\<close>

theorem smpl_any_length:
  assumes "wf_chunk smpl" and "id_ck smpl = tag ''smpl''"
  shows "(\<exists>s. ReadSoundFontSamples (chunk_bytes smpl) = Inr s
            \<and> length (SamplesHigher s) = unat (size_ck smpl) div 2
            \<and> SamplesHigher s =
                map (smpl_sample (take (2 * (unat (size_ck smpl) div 2)) (data_ck smpl)))
                  [0 ..< unat (size_ck smpl) div 2])
       \<and> (\<forall>rest s. ReadSoundFontSamples (chunk_bytes smpl @ rest) = Inr s \<longrightarrow>
            length (SamplesHigher s) = unat (size_ck smpl) div 2
            \<and> SamplesHigher s =
                map (smpl_sample (take (2 * (unat (size_ck smpl) div 2)) (data_ck smpl)))
                  [0 ..< unat (size_ck smpl) div 2])
       \<and> (\<forall>smpl' rest rest' s s'.
            wf_chunk smpl' \<and> id_ck smpl' = tag ''smpl'' \<and> size_ck smpl' = size_ck smpl
            \<and> take (2 * (unat (size_ck smpl) div 2)) (data_ck smpl')
                = take (2 * (unat (size_ck smpl) div 2)) (data_ck smpl)
            \<and> ReadSoundFontSamples (chunk_bytes smpl @ rest) = Inr s
            \<and> ReadSoundFontSamples (chunk_bytes smpl' @ rest') = Inr s' \<longrightarrow>
            SamplesHigher s' = SamplesHigher s)"
proof -
  have e: "expect (chunk_bytes c @ rest) (tag ''smpl'') = Inr (c, rest)"
    if "wf_chunk c" "id_ck c = tag ''smpl''" for c rest
    using that by (simp add: expect_def parse_chunk_bytes)
  have higher: "SamplesHigher s = smpl_samples c"
    if "wf_chunk c" "id_ck c = tag ''smpl''"
      and "ReadSoundFontSamples (chunk_bytes c @ rest) = Inr s" for c rest s
    using that(3) e [OF that(1,2), of rest]
    by (auto simp add: ReadSoundFontSamples_def split: sum.splits if_splits)
  have "expect [] (tag ''sm24'') = Inl EOF"
    by (simp add: expect_def parse_Nil)
  with e [OF assms, of "[]"] have alone: "ReadSoundFontSamples (chunk_bytes smpl)
      = Inr \<lparr>SamplesHigher = smpl_samples smpl, SamplesLower = []\<rparr>"
    by (simp add: ReadSoundFontSamples_def)
  have len: "length (smpl_samples smpl) = unat (size_ck smpl) div 2"
    by (simp add: smpl_samples_def unat_half)
  have first: "\<exists>s. ReadSoundFontSamples (chunk_bytes smpl) = Inr s
      \<and> length (SamplesHigher s) = unat (size_ck smpl) div 2
      \<and> SamplesHigher s =
          map (smpl_sample (take (2 * (unat (size_ck smpl) div 2)) (data_ck smpl)))
            [0 ..< unat (size_ck smpl) div 2]"
    using alone len smpl_samples_take [of smpl] by simp
  have second: "length (SamplesHigher s) = unat (size_ck smpl) div 2
      \<and> SamplesHigher s =
          map (smpl_sample (take (2 * (unat (size_ck smpl) div 2)) (data_ck smpl)))
            [0 ..< unat (size_ck smpl) div 2]"
    if "ReadSoundFontSamples (chunk_bytes smpl @ rest) = Inr s" for rest s
    using higher [OF assms that] len smpl_samples_take [of smpl] by simp
  have third: "SamplesHigher s' = SamplesHigher s"
    if c: "wf_chunk smpl'" "id_ck smpl' = tag ''smpl''" and sz: "size_ck smpl' = size_ck smpl"
      and tk: "take (2 * (unat (size_ck smpl) div 2)) (data_ck smpl')
                = take (2 * (unat (size_ck smpl) div 2)) (data_ck smpl)"
      and r: "ReadSoundFontSamples (chunk_bytes smpl @ rest) = Inr s"
      and r': "ReadSoundFontSamples (chunk_bytes smpl' @ rest') = Inr s'"
    for smpl' rest rest' s s'
  proof -
    have "SamplesHigher s' = smpl_samples smpl'" by (rule higher [OF c r'])
    also have "\<dots> = smpl_samples smpl"
      using smpl_samples_take [of smpl'] smpl_samples_take [of smpl] sz tk by simp
    also have "\<dots> = SamplesHigher s" by (rule higher [OF assms r, symmetric])
    finally show ?thesis .
  qed
  from first second third show ?thesis by blast
qed

theorem smpl_any_length_witness:
  "(\<exists>s. ReadSoundFontSamples (chunk_bytes \<lparr>id_ck = tag ''smpl'', size_ck = 3, data_ck = [1, 2, 3]\<rparr>) = Inr s
      \<and> length (SamplesHigher s) = 1
      \<and> SamplesHigher s = map (smpl_sample [1, 2]) [0 ..< 1])
   \<and> (\<exists>s'. ReadSoundFontSamples (chunk_bytes \<lparr>id_ck = tag ''smpl'', size_ck = 3, data_ck = [1, 2, 9]\<rparr>) = Inr s'
      \<and> SamplesHigher s' = map (smpl_sample [1, 2]) [0 ..< 1])"
proof -
  let ?a = "\<lparr>id_ck = tag ''smpl'', size_ck = 3, data_ck = [1, 2, 3 :: byte]\<rparr>"
  let ?b = "\<lparr>id_ck = tag ''smpl'', size_ck = 3, data_ck = [1, 2, 9 :: byte]\<rparr>"
  have wa: "wf_chunk ?a" "id_ck ?a = tag ''smpl''" by (simp_all add: wf_chunk_def length_tag)
  have wb: "wf_chunk ?b" "id_ck ?b = tag ''smpl''" by (simp_all add: wf_chunk_def length_tag)
  from smpl_any_length [OF wa] obtain s
    where s: "ReadSoundFontSamples (chunk_bytes ?a) = Inr s" "length (SamplesHigher s) = 1"
      "SamplesHigher s = map (smpl_sample [1, 2]) [0 ..< 1]"
    by auto
  from smpl_any_length [OF wb] obtain s'
    where s': "ReadSoundFontSamples (chunk_bytes ?b) = Inr s'" by auto
  have "SamplesHigher s' = SamplesHigher s"
    using smpl_any_length [OF wa] wb s(1) s' 
    by (elim conjE allE [of _ ?b] allE [of _ "[]"] allE [of _ s] allE [of _ s']) simp
  with s s' show ?thesis by auto
qed

section \<open>Facts about the record decoders\<close>

lemma word_mod_unat: "((w :: 32 word) mod k = 0) = (unat w mod unat k = 0)"
  by (simp add: unat_mod [symmetric] unat_eq_zero)

lemma read_records_concat:
  assumes step: "\<And>r. w \<le> length r \<Longrightarrow> \<exists>x. rd r = Inr (x, drop w r) \<and> enc x = take w r"
    and len: "n * w \<le> length r"
  shows "\<exists>xs. read_records rd n r = Inr xs \<and> length xs = n \<and> concat (map enc xs) = take (n * w) r"
  using len
proof (induction n arbitrary: r)
  case 0
  then show ?case by simp
next
  case (Suc n)
  then have "w \<le> length r" by simp
  with step obtain x where x: "rd r = Inr (x, drop w r)" "enc x = take w r" by blast
  from Suc.prems have "n * w \<le> length (drop w r)" by simp
  with Suc.IH obtain xs where xs: "read_records rd n (drop w r) = Inr xs" "length xs = n"
    "concat (map enc xs) = take (n * w) (drop w r)" by blast
  have "take w r @ take (n * w) (drop w r) = take (Suc n * w) r"
    by (simp add: take_add)
  with x xs show ?case by simp
qed

lemma le16_Uint16:
  assumes "2 \<le> length b" shows "le16 (Uint16 b) = take 2 b"
proof -
  from assms obtain b0 b1 bs where b: "b = b0 # b1 # bs"
    by (cases b; simp; rename_tac b1 bs1; case_tac bs1; simp)
  have "le16 (Uint16 (b0 # b1 # bs)) = [b0, b1]"
    unfolding Uint16_def le16_def
    apply simp
    apply (intro conjI bit_word_eqI)
     apply (auto simp add: bit_simps dest: bit_imp_le_length)
    done
  then show ?thesis using b by simp
qed

lemma le16_bytes: "le16 (push_bit 8 (ucast b1) OR ucast b0) = [b0, b1]"
  unfolding le16_def
  apply simp
  apply (intro conjI bit_word_eqI)
   apply (auto simp add: bit_simps dest: bit_imp_le_length)
  done

lemma take_drop_step: "take k (drop i b) @ drop (k + i) b = drop i b"
  using append_take_drop_id [of k "drop i b"] by simp

lemma take_1_drop: "i < length b \<Longrightarrow> take (Suc 0) (drop i b) = [b ! i]"
  by (simp add: Cons_nth_drop_Suc [symmetric])

lemma read_Generator_enc:
  assumes "4 \<le> length r"
  shows "\<exists>x. read_Generator r = Inr (x, drop 4 r) \<and> encode_Generator x = take 4 r"
proof -
  let ?b = "take 4 r"
  have len: "length ?b = 4" using assms by simp
  have "take 2 ?b @ take 2 (drop 2 ?b) = ?b"
    using take_drop_step [of 2 0 ?b] take_drop_step [of 2 2 ?b] len by simp
  then show ?thesis
    using assms len by (simp add: read_Generator_def ReadFull_def encode_Generator_def le16_Uint16)
qed

lemma read_Modulator_enc:
  assumes "10 \<le> length r"
  shows "\<exists>x. read_Modulator r = Inr (x, drop 10 r) \<and> encode_Modulator x = take 10 r"
proof -
  let ?b = "take 10 r"
  have len: "length ?b = 10" using assms by simp
  have "take 2 ?b @ take 2 (drop 2 ?b) @ take 2 (drop 4 ?b) @ take 2 (drop 6 ?b)
          @ take 2 (drop 8 ?b) = ?b"
    using take_drop_step [of 2 0 ?b] take_drop_step [of 2 2 ?b] take_drop_step [of 2 4 ?b]
      take_drop_step [of 2 6 ?b] take_drop_step [of 2 8 ?b] len by simp
  then show ?thesis
    using assms len by (simp add: read_Modulator_def ReadFull_def encode_Modulator_def le16_Uint16)
qed

lemma read_Instrument_enc:
  assumes "22 \<le> length r"
  shows "\<exists>x. read_Instrument r = Inr (x, drop 22 r) \<and> encode_Instrument x = take 22 r"
proof -
  let ?b = "take 22 r"
  have len: "length ?b = 22" using assms by simp
  have "take 20 ?b @ take 2 (drop 20 ?b) = ?b"
    using take_drop_step [of 20 0 ?b] take_drop_step [of 2 20 ?b] len by simp
  then show ?thesis
    using assms len by (simp add: read_Instrument_def ReadFull_def encode_Instrument_def le16_Uint16)
qed

lemma read_PresetHeader_enc:
  assumes "38 \<le> length r"
  shows "\<exists>x. read_PresetHeader r = Inr (x, drop 38 r) \<and> encode_PresetHeader x = take 38 r"
proof -
  let ?b = "take 38 r"
  have len: "length ?b = 38" using assms by simp
  have "take 20 ?b @ take 2 (drop 20 ?b) @ take 2 (drop 22 ?b) @ take 2 (drop 24 ?b)
          @ take 4 (drop 26 ?b) @ take 4 (drop 30 ?b) @ take 4 (drop 34 ?b) = ?b"
    using take_drop_step [of 20 0 ?b] take_drop_step [of 2 20 ?b] take_drop_step [of 2 22 ?b]
      take_drop_step [of 2 24 ?b] take_drop_step [of 4 26 ?b] take_drop_step [of 4 30 ?b]
      take_drop_step [of 4 34 ?b] len by simp
  then show ?thesis
    using assms len
    by (simp add: read_PresetHeader_def ReadFull_def encode_PresetHeader_def le16_Uint16 le32_Uint32)
qed

lemma SampleHeader_fields:
  assumes len: "length b = 46"
  shows "take 20 b @ take 4 (drop 20 b) @ take 4 (drop 24 b) @ take 4 (drop 28 b)
          @ take 4 (drop 32 b) @ take 4 (drop 36 b) @ [b ! 40] @ [b ! 41]
          @ take 2 (drop 42 b) @ take 2 (drop 44 b) = (b :: byte list)"
proof -
  have one: "[b ! 40] = take (Suc 0) (drop 40 b)" "[b ! 41] = take (Suc 0) (drop 41 b)"
    using len by (simp_all add: take_1_drop)
  show ?thesis
    unfolding one
    using take_drop_step [of 20 0 b] take_drop_step [of 4 20 b] take_drop_step [of 4 24 b]
      take_drop_step [of 4 28 b] take_drop_step [of 4 32 b] take_drop_step [of 4 36 b]
      take_drop_step [of "Suc 0" 40 b] take_drop_step [of "Suc 0" 41 b] take_drop_step [of 2 42 b]
      take_drop_step [of 2 44 b] len by simp
qed

lemma read_SampleHeader_enc:
  assumes "46 \<le> length r"
  shows "\<exists>x. read_SampleHeader r = Inr (x, drop 46 r) \<and> encode_SampleHeader x = take 46 r"
proof -
  have len: "length (take 46 r) = 46" using assms by simp
  show ?thesis
    using assms len SampleHeader_fields [OF len]
    by (simp add: read_SampleHeader_def ReadFull_def encode_SampleHeader_def le16_Uint16 le32_Uint32
        del: nth_take)
qed

lemma bag_quads:
  "4 * n \<le> length d \<Longrightarrow>
     concat (map (\<lambda>i. [d ! (4 * i), d ! (4 * i + 1), d ! (4 * i + 2), d ! (4 * i + 3)]) [0 ..< n])
       = take (4 * n) d"
proof (induction n)
  case 0
  then show ?case by simp
next
  case (Suc n)
  then have "take (4 * Suc n) d
      = take (4 * n) d @ [d ! (4 * n), d ! (4 * n + 1), d ! (4 * n + 2), d ! (4 * n + 3)]"
    by (simp add: take_Suc_conv_app_nth numeral_eq_Suc)
  with Suc show ?case by simp
qed

lemma pbag_entries_enc:
  "4 * n \<le> length d \<Longrightarrow> concat (map encode_PBagEntry (map (pbag_entry d) [0 ..< n])) = take (4 * n) d"
  using bag_quads [of n d]
  by (simp add: encode_PBagEntry_def pbag_entry_def le16_bytes comp_def)

lemma ibag_entries_enc:
  "4 * n \<le> length d \<Longrightarrow> concat (map encode_IBagEntry (map (ibag_entry d) [0 ..< n])) = take (4 * n) d"
  using bag_quads [of n d]
  by (simp add: encode_IBagEntry_def ibag_entry_def le16_bytes comp_def)

lemma read_records_chunk:
  assumes step: "\<And>r. w \<le> length r \<Longrightarrow> \<exists>x. rd r = Inr (x, drop w r) \<and> enc x = take w r"
    and len: "length d = n" and dvd: "n mod w = 0"
  shows "\<exists>xs. read_records rd (n div w) d = Inr xs \<and> length xs = n div w \<and> concat (map enc xs) = d"
proof -
  from dvd have "n div w * w = n" by auto
  with len read_records_concat [of w rd enc "n div w" d, OF step] show ?thesis by simp
qed

lemma pbag_chunk_enc:
  assumes "length d = n" and "n mod 4 = 0"
  shows "concat (map encode_PBagEntry (map (pbag_entry d) [0 ..< n div 4])) = d"
proof -
  from assms(2) have "4 * (n div 4) = n" by auto
  with assms(1) pbag_entries_enc [of "n div 4" d] show ?thesis by simp
qed

lemma ibag_chunk_enc:
  assumes "length d = n" and "n mod 4 = 0"
  shows "concat (map encode_IBagEntry (map (ibag_entry d) [0 ..< n div 4])) = d"
proof -
  from assms(2) have "4 * (n div 4) = n" by auto
  with assms(1) ibag_entries_enc [of "n div 4" d] show ?thesis by simp
qed

lemma hydra_tag_facts:
  "tag ''phdr'' \<noteq> tag ''pbag''" "tag ''phdr'' \<noteq> tag ''pmod''" "tag ''phdr'' \<noteq> tag ''pgen''"
  "tag ''phdr'' \<noteq> tag ''inst''" "tag ''phdr'' \<noteq> tag ''ibag''" "tag ''phdr'' \<noteq> tag ''imod''"
  "tag ''phdr'' \<noteq> tag ''igen''" "tag ''phdr'' \<noteq> tag ''shdr''"
  "tag ''pbag'' \<noteq> tag ''pmod''" "tag ''pbag'' \<noteq> tag ''pgen''" "tag ''pbag'' \<noteq> tag ''inst''"
  "tag ''pbag'' \<noteq> tag ''ibag''" "tag ''pbag'' \<noteq> tag ''imod''" "tag ''pbag'' \<noteq> tag ''igen''"
  "tag ''pbag'' \<noteq> tag ''shdr''"
  "tag ''pmod'' \<noteq> tag ''pgen''" "tag ''pmod'' \<noteq> tag ''inst''" "tag ''pmod'' \<noteq> tag ''ibag''"
  "tag ''pmod'' \<noteq> tag ''imod''" "tag ''pmod'' \<noteq> tag ''igen''" "tag ''pmod'' \<noteq> tag ''shdr''"
  "tag ''pgen'' \<noteq> tag ''inst''" "tag ''pgen'' \<noteq> tag ''ibag''" "tag ''pgen'' \<noteq> tag ''imod''"
  "tag ''pgen'' \<noteq> tag ''igen''" "tag ''pgen'' \<noteq> tag ''shdr''"
  "tag ''inst'' \<noteq> tag ''ibag''" "tag ''inst'' \<noteq> tag ''imod''" "tag ''inst'' \<noteq> tag ''igen''"
  "tag ''inst'' \<noteq> tag ''shdr''"
  "tag ''ibag'' \<noteq> tag ''imod''" "tag ''ibag'' \<noteq> tag ''igen''" "tag ''ibag'' \<noteq> tag ''shdr''"
  "tag ''imod'' \<noteq> tag ''igen''" "tag ''imod'' \<noteq> tag ''shdr''"
  "tag ''igen'' \<noteq> tag ''shdr''"
  by (simp_all add: tag_def)

lemmas hydra_tag_neq = hydra_tag_facts hydra_tag_facts [symmetric]

lemma hydra_widths_cases:
  assumes "map_of hydra_widths t = Some w"
  obtains "t = tag ''phdr''" "w = 38" | "t = tag ''pbag''" "w = 4" | "t = tag ''pmod''" "w = 10"
    | "t = tag ''pgen''" "w = 4" | "t = tag ''inst''" "w = 22" | "t = tag ''ibag''" "w = 4"
    | "t = tag ''imod''" "w = 10" | "t = tag ''igen''" "w = 4" | "t = tag ''shdr''" "w = 46"
  using assms by (auto simp add: hydra_widths_def split: if_splits)

lemma hydra_widths_None:
  assumes "map_of hydra_widths t = None"
  shows "t \<noteq> tag ''phdr'' \<and> t \<noteq> tag ''pbag'' \<and> t \<noteq> tag ''pmod'' \<and> t \<noteq> tag ''pgen''
    \<and> t \<noteq> tag ''inst'' \<and> t \<noteq> tag ''ibag'' \<and> t \<noteq> tag ''imod'' \<and> t \<noteq> tag ''igen''
    \<and> t \<noteq> tag ''shdr''"
  using assms by (auto simp add: hydra_widths_def split: if_splits)

lemma hydra_chunk_unknown:
  "map_of hydra_widths (id_ck ck) = None \<Longrightarrow> hydra_chunk ck sound = Inr sound"
  by (drule hydra_widths_None) (simp add: hydra_chunk_def)

lemma array_of_unknown:
  "map_of hydra_widths t = None \<Longrightarrow> array_of t sound = None"
  by (drule hydra_widths_None) (simp add: array_of_def)

lemma hydra_chunk_bad:
  assumes "map_of hydra_widths (id_ck ck) = Some w" and "unat (size_ck ck) mod w \<noteq> 0"
  shows "\<exists>name. hydra_chunk ck sound = Inl (InvalidSize name (size_ck ck))"
  using assms(1)
proof (cases rule: hydra_widths_cases)
qed (use assms(2) in \<open>simp_all add: hydra_chunk_def hydra_tag_neq word_mod_unat\<close>)

lemma hydra_chunk_ok:
  assumes wf: "wf_chunk ck" and w: "map_of hydra_widths (id_ck ck) = Some w"
    and m: "unat (size_ck ck) mod w = 0"
  shows "\<exists>sound' a. hydra_chunk ck sound = Inr sound' \<and> array_of (id_ck ck) sound' = Some a
           \<and> array_length a = unat (size_ck ck) div w \<and> encode_array a = data_ck ck
           \<and> (\<forall>t. t \<noteq> id_ck ck \<longrightarrow> array_of t sound' = array_of t sound)"
proof -
  from wf have len: "length (data_ck ck) = unat (size_ck ck)" by (simp add: wf_chunk_def)
  from w show ?thesis
  proof (cases rule: hydra_widths_cases)
    case 1
    from read_records_chunk [of 38 read_PresetHeader encode_PresetHeader, OF read_PresetHeader_enc len]
      m 1
    obtain xs where "read_records read_PresetHeader (unat (size_ck ck) div 38) (data_ck ck) = Inr xs"
      "length xs = unat (size_ck ck) div 38" "concat (map encode_PresetHeader xs) = data_ck ck"
      by auto
    with 1 m show ?thesis
      by (simp add: hydra_chunk_def hydra_tag_neq word_mod_unat unat_div array_of_def)
  next
    case 2
    with m pbag_chunk_enc [OF len, of ] show ?thesis
      by (simp add: hydra_chunk_def hydra_tag_neq word_mod_unat unat_div array_of_def)
  next
    case 3
    from read_records_chunk [of 10 read_Modulator encode_Modulator, OF read_Modulator_enc len]
      m 3
    obtain xs where "read_records read_Modulator (unat (size_ck ck) div 10) (data_ck ck) = Inr xs"
      "length xs = unat (size_ck ck) div 10" "concat (map encode_Modulator xs) = data_ck ck"
      by auto
    with 3 m show ?thesis
      by (simp add: hydra_chunk_def hydra_tag_neq word_mod_unat unat_div array_of_def)
  next
    case 4
    from read_records_chunk [of 4 read_Generator encode_Generator, OF read_Generator_enc len]
      m 4
    obtain xs where "read_records read_Generator (unat (size_ck ck) div 4) (data_ck ck) = Inr xs"
      "length xs = unat (size_ck ck) div 4" "concat (map encode_Generator xs) = data_ck ck"
      by auto
    with 4 m show ?thesis
      by (simp add: hydra_chunk_def hydra_tag_neq word_mod_unat unat_div array_of_def)
  next
    case 5
    from read_records_chunk [of 22 read_Instrument encode_Instrument, OF read_Instrument_enc len]
      m 5
    obtain xs where "read_records read_Instrument (unat (size_ck ck) div 22) (data_ck ck) = Inr xs"
      "length xs = unat (size_ck ck) div 22" "concat (map encode_Instrument xs) = data_ck ck"
      by auto
    with 5 m show ?thesis
      by (simp add: hydra_chunk_def hydra_tag_neq word_mod_unat unat_div array_of_def)
  next
    case 6
    with m ibag_chunk_enc [OF len] show ?thesis
      by (simp add: hydra_chunk_def hydra_tag_neq word_mod_unat unat_div array_of_def)
  next
    case 7
    from read_records_chunk [of 10 read_Modulator encode_Modulator, OF read_Modulator_enc len]
      m 7
    obtain xs where "read_records read_Modulator (unat (size_ck ck) div 10) (data_ck ck) = Inr xs"
      "length xs = unat (size_ck ck) div 10" "concat (map encode_Modulator xs) = data_ck ck"
      by auto
    with 7 m show ?thesis
      by (simp add: hydra_chunk_def hydra_tag_neq word_mod_unat unat_div array_of_def)
  next
    case 8
    from read_records_chunk [of 4 read_Generator encode_Generator, OF read_Generator_enc len]
      m 8
    obtain xs where "read_records read_Generator (unat (size_ck ck) div 4) (data_ck ck) = Inr xs"
      "length xs = unat (size_ck ck) div 4" "concat (map encode_Generator xs) = data_ck ck"
      by auto
    with 8 m show ?thesis
      by (simp add: hydra_chunk_def hydra_tag_neq word_mod_unat unat_div array_of_def)
  next
    case 9
    from read_records_chunk [of 46 read_SampleHeader encode_SampleHeader, OF read_SampleHeader_enc len]
      m 9
    obtain xs where "read_records read_SampleHeader (unat (size_ck ck) div 46) (data_ck ck) = Inr xs"
      "length xs = unat (size_ck ck) div 46" "concat (map encode_SampleHeader xs) = data_ck ck"
      by auto
    with 9 m show ?thesis
      by (simp add: hydra_chunk_def hydra_tag_neq word_mod_unat unat_div array_of_def)
  qed
qed

lemma hydra_chunk_indep:
  assumes "hydra_chunk ck s1 = Inr s1'"
  shows "\<exists>s2'. hydra_chunk ck s2 = Inr s2' \<and> array_of (id_ck ck) s2' = array_of (id_ck ck) s1'"
  using assms
  by (auto simp add: hydra_chunk_def array_of_def hydra_tag_neq split: if_splits sum.splits)

section \<open>Facts about the Hydra loop\<close>

lemma hydra_chunk_other:
  assumes "hydra_chunk ck s = Inr s'" and "t \<noteq> id_ck ck"
  shows "array_of t s' = array_of t s"
  using assms
  by (auto simp add: hydra_chunk_def array_of_def hydra_tag_neq split: if_splits sum.splits)

lemma hydra_chunk_Inr_sized:
  assumes "hydra_chunk ck s = Inr s'"
  shows "sized_ok ck"
proof (cases "map_of hydra_widths (id_ck ck)")
  case None
  then show ?thesis by (simp add: sized_ok_def)
next
  case (Some w)
  with assms hydra_chunk_bad [of ck w s] show ?thesis by (auto simp add: sized_ok_def)
qed

lemma hydra_chunk_succeeds:
  assumes "wf_chunk ck" and "sized_ok ck"
  shows "\<exists>s'. hydra_chunk ck s = Inr s'"
proof (cases "map_of hydra_widths (id_ck ck)")
  case None
  then show ?thesis by (simp add: hydra_chunk_unknown)
next
  case (Some w)
  with assms hydra_chunk_ok [of ck w s] show ?thesis by (auto simp add: sized_ok_def)
qed

lemma find_append:
  "find P (xs @ ys) = (case find P xs of None \<Rightarrow> find P ys | Some x \<Rightarrow> Some x)"
  by (induction xs) auto

lemma last_chunk_Nil: "last_chunk t [] = None"
  by (simp add: last_chunk_def)

lemma last_chunk_Cons:
  "last_chunk t (c # cks) =
     (case last_chunk t cks of
        None \<Rightarrow> if id_ck c = t then Some c else None
      | Some ck \<Rightarrow> Some ck)"
  by (simp add: last_chunk_def find_append split: option.splits)

lemma last_chunk_None: "last_chunk t cks = None \<longleftrightarrow> t \<notin> id_ck ` set cks"
  by (auto simp add: last_chunk_def find_None_iff)

lemma find_Some_D: "find P xs = Some x \<Longrightarrow> x \<in> set xs \<and> P x"
  by (induction xs) (auto split: if_splits)

lemma last_chunk_Some: "last_chunk t cks = Some ck \<Longrightarrow> ck \<in> set cks \<and> id_ck ck = t"
  using find_Some_D [of "\<lambda>ck. id_ck ck = t" "rev cks" ck] by (simp add: last_chunk_def)

lemma hydra_chunks_seen:
  "hydra_chunks cks sound m = Inr (sound', m') \<Longrightarrow>
     m' t = (if m t \<noteq> None \<and> t \<in> id_ck ` set cks then Some True else m t)"
proof (induction cks arbitrary: sound m)
  case Nil
  then show ?case by simp
next
  case (Cons c cks)
  show ?case
  proof (cases "m (id_ck c)")
    case None
    with Cons.prems have "hydra_chunks cks sound m = Inr (sound', m')" by simp
    from Cons.IH [OF this] None show ?thesis by auto
  next
    case (Some seen)
    with Cons.prems obtain s1 where s1: "hydra_chunk c sound = Inr s1"
      and rest: "hydra_chunks cks s1 (m(id_ck c \<mapsto> True)) = Inr (sound', m')"
      by (auto split: sum.splits)
    from Cons.IH [OF rest] Some show ?thesis by auto
  qed
qed

lemma hydra_chunks_sized:
  "hydra_chunks cks sound m = Inr res \<Longrightarrow> ck \<in> set cks \<Longrightarrow> m (id_ck ck) \<noteq> None \<Longrightarrow> sized_ok ck"
proof (induction cks arbitrary: sound m)
  case Nil
  then show ?case by simp
next
  case (Cons c cks)
  show ?case
  proof (cases "m (id_ck c)")
    case None
    with Cons.prems have "hydra_chunks cks sound m = Inr res" and "ck \<in> set cks" by auto
    with Cons.IH Cons.prems(3) show ?thesis by blast
  next
    case (Some seen)
    with Cons.prems obtain s1 where s1: "hydra_chunk c sound = Inr s1"
      and rest: "hydra_chunks cks s1 (m(id_ck c \<mapsto> True)) = Inr res"
      by (auto split: sum.splits)
    show ?thesis
    proof (cases "ck = c")
      case True
      with s1 show ?thesis by (simp add: hydra_chunk_Inr_sized)
    next
      case False
      with Cons.prems have "ck \<in> set cks" by simp
      moreover from Cons.prems(3) have "(m(id_ck c \<mapsto> True)) (id_ck ck) \<noteq> None" by auto
      ultimately show ?thesis using Cons.IH [OF rest] by blast
    qed
  qed
qed

lemma hydra_chunks_succeed:
  "\<forall>ck\<in>set cks. wf_chunk ck \<and> (m (id_ck ck) \<noteq> None \<longrightarrow> sized_ok ck) \<Longrightarrow>
     \<exists>res. hydra_chunks cks sound m = Inr res"
proof (induction cks arbitrary: sound m)
  case Nil
  then show ?case by simp
next
  case (Cons c cks)
  show ?case
  proof (cases "m (id_ck c)")
    case None
    with Cons.IH [of m sound] Cons.prems show ?thesis by simp
  next
    case (Some seen)
    with Cons.prems hydra_chunk_succeeds [of c sound] obtain s1 where s1: "hydra_chunk c sound = Inr s1"
      by auto
    have "\<forall>ck\<in>set cks. wf_chunk ck \<and> ((m(id_ck c \<mapsto> True)) (id_ck ck) \<noteq> None \<longrightarrow> sized_ok ck)"
      using Cons.prems Some by (auto simp add: hydra_chunk_Inr_sized [OF s1])
    from Cons.IH [OF this, of s1] obtain res
      where "hydra_chunks cks s1 (m(id_ck c \<mapsto> True)) = Inr res" by blast
    with Some s1 show ?thesis by simp
  qed
qed

lemma hydra_chunks_first_bad:
  assumes "\<forall>c\<in>set pre. wf_chunk c \<and> (m (id_ck c) \<noteq> None \<longrightarrow> sized_ok c)"
    and "m (id_ck ck) \<noteq> None" and "\<not> sized_ok ck"
  shows "\<exists>name. hydra_chunks (pre @ ck # post) sound m = Inl (InvalidSize name (size_ck ck))"
  using assms
proof (induction pre arbitrary: sound m)
  case Nil
  from \<open>\<not> sized_ok ck\<close> obtain w where w: "map_of hydra_widths (id_ck ck) = Some w"
    "unat (size_ck ck) mod w \<noteq> 0"
    by (auto simp add: sized_ok_def split: option.splits)
  from hydra_chunk_bad [OF w, of sound] Nil.prems(2) show ?case by auto
next
  case (Cons c pre)
  show ?case
  proof (cases "m (id_ck c)")
    case None
    with Cons.IH [of m sound] Cons.prems show ?thesis by simp
  next
    case (Some seen)
    with Cons.prems hydra_chunk_succeeds [of c sound] obtain s1 where s1: "hydra_chunk c sound = Inr s1"
      by auto
    have "\<forall>ck\<in>set pre. wf_chunk ck \<and> ((m(id_ck c \<mapsto> True)) (id_ck ck) \<noteq> None \<longrightarrow> sized_ok ck)"
      using Cons.prems Some by (auto simp add: hydra_chunk_Inr_sized [OF s1])
    moreover have "(m(id_ck c \<mapsto> True)) (id_ck ck) \<noteq> None"
      using Cons.prems(2) by auto
    ultimately obtain name
      where "hydra_chunks (pre @ ck # post) s1 (m(id_ck c \<mapsto> True))
               = Inl (InvalidSize name (size_ck ck))"
      using Cons.IH [of "m(id_ck c \<mapsto> True)" s1] Cons.prems(3) by blast
    with Some s1 show ?thesis by simp
  qed
qed

lemma hydra_chunks_last:
  assumes "hydra_chunks cks sound m = Inr (sound', m')" and "m t \<noteq> None"
  shows "case last_chunk t cks of
           None \<Rightarrow> array_of t sound' = array_of t sound
         | Some ck \<Rightarrow> (\<exists>s. hydra_chunk ck s0 = Inr s \<and> array_of t sound' = array_of t s)"
  using assms
proof (induction cks arbitrary: sound m)
  case Nil
  then show ?case by (simp add: last_chunk_Nil)
next
  case (Cons c cks)
  show ?case
  proof (cases "m (id_ck c)")
    case None
    with Cons.prems have rest: "hydra_chunks cks sound m = Inr (sound', m')" by simp
    from None Cons.prems(2) have "id_ck c \<noteq> t" by auto
    with Cons.IH [OF rest Cons.prems(2)] show ?thesis
      by (simp add: last_chunk_Cons split: option.splits)
  next
    case (Some seen)
    with Cons.prems obtain s1 where s1: "hydra_chunk c sound = Inr s1"
      and rest: "hydra_chunks cks s1 (m(id_ck c \<mapsto> True)) = Inr (sound', m')"
      by (auto split: sum.splits)
    from Cons.prems(2) have t: "(m(id_ck c \<mapsto> True)) t \<noteq> None" by auto
    note ih = Cons.IH [OF rest t]
    show ?thesis
    proof (cases "last_chunk t cks")
      case (Some ck)
      with ih show ?thesis by (simp add: last_chunk_Cons)
    next
      case None
      with ih have eq: "array_of t sound' = array_of t s1" by simp
      show ?thesis
      proof (cases "id_ck c = t")
        case True
        with hydra_chunk_indep [OF s1, of s0] eq None show ?thesis
          by (auto simp add: last_chunk_Cons)
      next
        case False
        with hydra_chunk_other [OF s1, of t] eq None show ?thesis
          by (auto simp add: last_chunk_Cons)
      qed
    qed
  qed
qed

lemma pdtaChunks_init_apply:
  "pdtaChunks_init t = (if t \<in> set hydra_tags then Some False else None)"
  by (simp add: pdtaChunks_init_def hydra_tags_def hydra_widths_def hydra_tag_neq)

lemma hydra_widths_tags: "map_of hydra_widths t \<noteq> None \<longleftrightarrow> t \<in> set hydra_tags"
  by (simp add: hydra_tags_def map_of_eq_None_iff)

lemma range_order_init:
  "range_order keys pdtaChunks_init \<longleftrightarrow> distinct keys \<and> set keys = set hydra_tags"
  by (auto simp add: range_order_def dom_def pdtaChunks_init_apply)

lemma range_missing_None:
  "range_missing keys m = None \<longleftrightarrow> (\<forall>k\<in>set keys. m k \<noteq> Some False)"
  by (induction keys) auto

lemma range_missing_Some:
  "range_missing keys m = Some e \<Longrightarrow> \<exists>k\<in>set keys. m k = Some False \<and> e = MissingChunk k"
  by (induction keys) (auto split: if_splits)

lemma ReadSoundFontHydra_chunks:
  "ReadSoundFontHydra keys r =
     (case hydra_chunks (read_chunks r) sound_init pdtaChunks_init of
        Inl err \<Rightarrow> Inl err
      | Inr (sound, m) \<Rightarrow>
          if read_stop r \<noteq> EOF then Inl (read_stop r)
          else (case range_missing keys m of Some err \<Rightarrow> Inl err | None \<Rightarrow> Inr sound))"
  by (simp add: ReadSoundFontHydra_def hydra_loop_chunks split: sum.splits)

lemma ReadSoundFontHydra_Inr_D:
  assumes "ReadSoundFontHydra keys r = Inr h"
  obtains m where "hydra_chunks (read_chunks r) sound_init pdtaChunks_init = Inr (h, m)"
    and "read_stop r = EOF" and "range_missing keys m = None"
  using assms
  by (auto simp add: ReadSoundFontHydra_chunks split: sum.splits if_splits option.splits)

lemma hydra_success_tags:
  assumes ok: "ReadSoundFontHydra keys r = Inr h" and keys: "range_order keys pdtaChunks_init"
    and t: "t \<in> set hydra_tags"
  shows "t \<in> id_ck ` set (read_chunks r)"
proof -
  from ok obtain m where m: "hydra_chunks (read_chunks r) sound_init pdtaChunks_init = Inr (h, m)"
    and miss: "range_missing keys m = None"
    by (rule ReadSoundFontHydra_Inr_D)
  from keys t have "t \<in> set keys" by (simp add: range_order_init)
  with miss have "m t \<noteq> Some False" by (simp add: range_missing_None)
  with hydra_chunks_seen [OF m, of t] t show ?thesis
    by (simp add: pdtaChunks_init_apply split: if_splits)
qed

lemma hydra_result_array:
  assumes ok: "ReadSoundFontHydra keys r = Inr h"
    and l: "last_chunk t (read_chunks r) = Some ck" and w: "map_of hydra_widths t = Some w"
  shows "\<exists>a s. array_of t h = Some a \<and> array_length a = unat (size_ck ck) div w
           \<and> unat (size_ck ck) mod w = 0 \<and> encode_array a = data_ck ck
           \<and> hydra_chunk ck sound_init = Inr s \<and> array_of t s = Some a"
proof -
  from ok obtain m where m: "hydra_chunks (read_chunks r) sound_init pdtaChunks_init = Inr (h, m)"
    by (rule ReadSoundFontHydra_Inr_D)
  from l have ck: "ck \<in> set (read_chunks r)" "id_ck ck = t" by (auto dest: last_chunk_Some)
  from w have t: "pdtaChunks_init t \<noteq> None"
    using hydra_widths_tags [of t] by (simp add: pdtaChunks_init_apply)
  from hydra_chunks_sized [OF m ck(1)] t ck(2) w have md: "unat (size_ck ck) mod w = 0"
    by (simp add: sized_ok_def)
  from ck(1) have wf: "wf_chunk ck" by (rule read_chunks_wf)
  from hydra_chunk_ok [OF wf, of w sound_init] w md ck(2)
  obtain s a where s: "hydra_chunk ck sound_init = Inr s" "array_of t s = Some a"
    "array_length a = unat (size_ck ck) div w" "encode_array a = data_ck ck"
    by auto
  from hydra_chunks_last [OF m t, of sound_init] l s(1) have "array_of t h = array_of t s"
    by auto
  with s md show ?thesis by simp
qed

lemma range_order_hydra_tags: "range_order hydra_tags pdtaChunks_init"
  by (simp add: range_order_init) (simp add: hydra_tags_def hydra_widths_def hydra_tag_neq)

lemma widths_at:
  "map_of hydra_widths (tag ''phdr'') = Some 38" "map_of hydra_widths (tag ''pbag'') = Some 4"
  "map_of hydra_widths (tag ''pmod'') = Some 10" "map_of hydra_widths (tag ''pgen'') = Some 4"
  "map_of hydra_widths (tag ''inst'') = Some 22" "map_of hydra_widths (tag ''ibag'') = Some 4"
  "map_of hydra_widths (tag ''imod'') = Some 10" "map_of hydra_widths (tag ''igen'') = Some 4"
  "map_of hydra_widths (tag ''shdr'') = Some 46"
  by (simp_all add: hydra_widths_def hydra_tag_neq)

lemma array_of_at:
  "array_of (tag ''phdr'') s = Some (PresetHeaders (Headers s))"
  "array_of (tag ''pbag'') s = Some (PBagEntries (PBag s))"
  "array_of (tag ''pmod'') s = Some (Modulators (PresetModulators s))"
  "array_of (tag ''pgen'') s = Some (Generators (PresetGenerators s))"
  "array_of (tag ''inst'') s = Some (Instruments (Instuments s))"
  "array_of (tag ''ibag'') s = Some (IBagEntries (IBag s))"
  "array_of (tag ''imod'') s = Some (Modulators (InstrumentModulators s))"
  "array_of (tag ''igen'') s = Some (Generators (InstrumentGenerators s))"
  "array_of (tag ''shdr'') s = Some (SampleHeaders (Samples s))"
  by (simp_all add: array_of_def hydra_tag_neq)

lemma hydra_tag_nonempty_last:
  assumes ok: "ReadSoundFontHydra keys r = Inr h"
    and keys: "range_order keys pdtaChunks_init"
    and nz: "\<forall>t ck. t \<in> set hydra_tags \<and> last_chunk t (read_chunks r) = Some ck \<longrightarrow> size_ck ck \<noteq> 0"
    and w: "map_of hydra_widths t = Some w"
  shows "\<exists>a. array_of t h = Some a \<and> 1 \<le> array_length a"
proof -
  from w have t: "t \<in> set hydra_tags" using hydra_widths_tags [of t] by simp
  from hydra_success_tags [OF ok keys t] obtain ck where l: "last_chunk t (read_chunks r) = Some ck"
    by (cases "last_chunk t (read_chunks r)") (auto simp add: last_chunk_None)
  from hydra_result_array [OF ok l w] obtain a where a: "array_of t h = Some a"
    "array_length a = unat (size_ck ck) div w" "unat (size_ck ck) mod w = 0"
    by auto
  from nz t l have "size_ck ck \<noteq> 0" by auto
  then have "unat (size_ck ck) \<noteq> 0" by (simp add: unat_eq_zero)
  moreover from a(3) have "unat (size_ck ck) div w * w = unat (size_ck ck)" by auto
  ultimately have "1 \<le> unat (size_ck ck) div w"
    by (cases "unat (size_ck ck) div w = 0") auto
  with a show ?thesis by simp
qed

text \<open>
  After a successful decode each array is non-empty as soon as the last chunk of
  its id is non-empty.
\<close>

lemma hydra_arrays_nonempty_last:
  assumes ok: "ReadSoundFontHydra keys r = Inr h"
    and keys: "range_order keys pdtaChunks_init"
    and nz: "\<forall>t ck. t \<in> set hydra_tags \<and> last_chunk t (read_chunks r) = Some ck \<longrightarrow> size_ck ck \<noteq> 0"
  shows "1 \<le> length (Headers h) \<and> 1 \<le> length (PBag h) \<and> 1 \<le> length (PresetModulators h)
       \<and> 1 \<le> length (PresetGenerators h) \<and> 1 \<le> length (Instuments h) \<and> 1 \<le> length (IBag h)
       \<and> 1 \<le> length (InstrumentModulators h) \<and> 1 \<le> length (InstrumentGenerators h)
       \<and> 1 \<le> length (Samples h)"
proof -
  note one = hydra_tag_nonempty_last [OF ok keys nz]
  show ?thesis
    using one [OF widths_at(1)] one [OF widths_at(2)] one [OF widths_at(3)] one [OF widths_at(4)]
      one [OF widths_at(5)] one [OF widths_at(6)] one [OF widths_at(7)] one [OF widths_at(8)]
      one [OF widths_at(9)]
    by (simp add: array_of_at)
qed

lemma ReadSoundFontHydra_list:
  assumes "\<forall>ck\<in>set cks. wf_chunk ck"
  shows "ReadSoundFontHydra keys (chunk_list_bytes cks) =
     (case hydra_chunks cks sound_init pdtaChunks_init of
        Inl err \<Rightarrow> Inl err
      | Inr (sound, m) \<Rightarrow>
          (case range_missing keys m of Some err \<Rightarrow> Inl err | None \<Rightarrow> Inr sound))"
proof -
  from read_chunks_bytes [OF assms parse_Nil]
  have rc: "read_chunks (chunk_list_bytes cks) = cks"
    and rs: "read_stop (chunk_list_bytes cks) = EOF" by simp_all
  show ?thesis
    by (simp add: ReadSoundFontHydra_chunks rc rs split: sum.splits)
qed

lemma hydra_list_seen:
  assumes ok: "\<forall>ck\<in>set cks. wf_chunk ck \<and> sized_ok ck"
  shows "\<exists>sound m. hydra_chunks cks sound_init pdtaChunks_init = Inr (sound, m)
    \<and> (\<forall>t. m t = Some False \<longleftrightarrow> t \<in> set hydra_tags - id_ck ` set cks)"
proof -
  from ok hydra_chunks_succeed [of cks pdtaChunks_init sound_init]
  obtain sound m where m: "hydra_chunks cks sound_init pdtaChunks_init = Inr (sound, m)"
    by auto
  have "m t = Some False \<longleftrightarrow> t \<in> set hydra_tags - id_ck ` set cks" for t
    using hydra_chunks_seen [OF m, of t] by (auto simp add: pdtaChunks_init_apply)
  with m show ?thesis by blast
qed

section \<open>The Hydra decoder: claims\<close>

text \<open>
  In the theorems below \<open>keys\<close> is the order in which the final \<^verbatim>\<open>range\<close> visits
  the nine ids; \<open>range_order keys pdtaChunks_init\<close> says that it lists each of
  them once. \<open>hydra_tags\<close>, the order of the insertions, is one such order.
\<close>

text \<open>
  Claim C3 (every decoded array has at least one record). The decoder checks that
  each of the nine ids is present and that each size is a multiple of the record
  width, but not that a chunk holds a record: a chunk of size 0 passes the width
  check. On a list of nine empty chunks the decode succeeds and every one of the
  nine arrays is empty, where the claim, and the comments on the fields \<open>Headers\<close>,
  \<open>PBag\<close> and \<open>IBag\<close> (a minimum of two records; one record more for the terminal
  record), ask for at least the terminal record.
\<close>

theorem hydra_empty_chunks_give_empty_arrays:
  "ReadSoundFontHydra hydra_tags
     (tag ''phdr'' @ [0, 0, 0, 0] @ tag ''pbag'' @ [0, 0, 0, 0] @ tag ''pmod'' @ [0, 0, 0, 0]
      @ tag ''pgen'' @ [0, 0, 0, 0] @ tag ''inst'' @ [0, 0, 0, 0] @ tag ''ibag'' @ [0, 0, 0, 0]
      @ tag ''imod'' @ [0, 0, 0, 0] @ tag ''igen'' @ [0, 0, 0, 0] @ tag ''shdr'' @ [0, 0, 0, 0])
   = Inr \<lparr>Headers = [], PBag = [], PresetModulators = [], PresetGenerators = [],
          Instuments = [], IBag = [], InstrumentModulators = [], InstrumentGenerators = [],
          Samples = []\<rparr>"
  by code_simp

lemma hydra_first_bad:
  assumes bad: "ck \<in> set (read_chunks r)" "id_ck ck \<in> set hydra_tags" "\<not> sized_ok ck"
  shows "\<exists>c\<in>set (read_chunks r). \<exists>name. id_ck c \<in> set hydra_tags \<and> \<not> sized_ok c
           \<and> ReadSoundFontHydra keys r = Inl (InvalidSize name (size_ck c))"
proof -
  let ?P = "\<lambda>c. id_ck c \<in> set hydra_tags \<and> \<not> sized_ok c"
  from bad have "\<exists>c\<in>set (read_chunks r). ?P c" by auto
  from split_list_first_prop [OF this] obtain pre c post
    where split: "read_chunks r = pre @ c # post" and c: "?P c" and pre: "\<forall>x\<in>set pre. \<not> ?P x"
    by auto
  have "\<forall>x\<in>set pre. wf_chunk x \<and> (pdtaChunks_init (id_ck x) \<noteq> None \<longrightarrow> sized_ok x)"
  proof
    fix x assume x: "x \<in> set pre"
    with split have "x \<in> set (read_chunks r)" by simp
    then have "wf_chunk x" by (rule read_chunks_wf)
    with pre x show "wf_chunk x \<and> (pdtaChunks_init (id_ck x) \<noteq> None \<longrightarrow> sized_ok x)"
      by (auto simp add: pdtaChunks_init_apply)
  qed
  moreover from c have "pdtaChunks_init (id_ck c) \<noteq> None" by (simp add: pdtaChunks_init_apply)
  ultimately obtain name
    where "hydra_chunks (pre @ c # post) sound_init pdtaChunks_init
             = Inl (InvalidSize name (size_ck c))"
    using hydra_chunks_first_bad [of pre pdtaChunks_init c post sound_init] c by auto
  with split have "ReadSoundFontHydra keys r = Inl (InvalidSize name (size_ck c))"
    by (simp add: ReadSoundFontHydra_chunks)
  moreover from split have "c \<in> set (read_chunks r)" by simp
  ultimately show ?thesis using c by auto
qed

text \<open>
  Claim C5 (record widths). Let \<open>t\<close> be one of the nine ids and \<open>w\<close> its record
  width (38, 4, 10, 4, 22, 4, 10, 4, 46). If the input holds a chunk with id \<open>t\<close>
  whose declared length is not a multiple of \<open>w\<close>, the decode fails with the
  invalid-size error of a chunk of the input whose length is not a multiple of its
  width (the first such chunk; the error carries its size). If the decode succeeds,
  the length of the last chunk with id \<open>t\<close> is a multiple of \<open>w\<close> and the array
  for \<open>t\<close> has exactly length / \<open>w\<close> records. The chunks of an input are those that
  \<open>parse\<close> returns.
\<close>

theorem hydra_record_width_check:
  assumes w: "map_of hydra_widths t = Some w"
  shows "(\<forall>ck\<in>set (read_chunks r). id_ck ck = t \<and> unat (size_ck ck) mod w \<noteq> 0 \<longrightarrow>
            (\<exists>c\<in>set (read_chunks r). \<exists>name. id_ck c \<in> set hydra_tags \<and> \<not> sized_ok c
               \<and> ReadSoundFontHydra keys r = Inl (InvalidSize name (size_ck c))))
       \<and> (\<forall>h ck. ReadSoundFontHydra keys r = Inr h \<and> last_chunk t (read_chunks r) = Some ck \<longrightarrow>
            unat (size_ck ck) mod w = 0
            \<and> (\<exists>a. array_of t h = Some a \<and> array_length a = unat (size_ck ck) div w))"
proof (intro conjI ballI allI impI)
  fix ck
  assume ck: "ck \<in> set (read_chunks r)" and "id_ck ck = t \<and> unat (size_ck ck) mod w \<noteq> 0"
  with w have "id_ck ck \<in> set hydra_tags" "\<not> sized_ok ck"
    using hydra_widths_tags [of t] by (auto simp add: sized_ok_def)
  with ck show "\<exists>c\<in>set (read_chunks r). \<exists>name. id_ck c \<in> set hydra_tags \<and> \<not> sized_ok c
      \<and> ReadSoundFontHydra keys r = Inl (InvalidSize name (size_ck c))"
    by (rule hydra_first_bad)
next
  fix h ck
  assume a: "ReadSoundFontHydra keys r = Inr h \<and> last_chunk t (read_chunks r) = Some ck"
  then have ok: "ReadSoundFontHydra keys r = Inr h" and l: "last_chunk t (read_chunks r) = Some ck"
    by simp_all
  from hydra_result_array [OF ok l w]
  show "unat (size_ck ck) mod w = 0" by auto
  from hydra_result_array [OF ok l w]
  show "\<exists>a. array_of t h = Some a \<and> array_length a = unat (size_ck ck) div w" by auto
qed

theorem hydra_record_width_check_witness:
  "(\<exists>name sz. ReadSoundFontHydra hydra_tags
       (tag ''pbag'' @ [8, 0, 0, 0] @ [1, 0, 2, 0, 3, 0, 4, 0] @ tag ''pgen'' @ [3, 0, 0, 0] @ [1, 2, 3])
       = Inl (InvalidSize name sz))
   \<and> (\<exists>a. array_of (tag ''pbag'') (sound_init\<lparr>PBag := [\<lparr>GenIndex = 1, ModIndex = 2\<rparr>,
           \<lparr>GenIndex = 3, ModIndex = 4\<rparr>]\<rparr>) = Some a \<and> array_length a = 8 div 4)"
proof -
  let ?bad = "tag ''pbag'' @ [8, 0, 0, 0] @ [1, 0, 2, 0, 3, 0, 4, 0] @ tag ''pgen'' @ [3, 0, 0, 0] @ [1, 2, 3 :: byte]"
  let ?ck = "\<lparr>id_ck = tag ''pgen'', size_ck = 3, data_ck = [1, 2, 3]\<rparr>"
  have "?ck \<in> set (read_chunks ?bad)" by code_simp
  with hydra_record_width_check [OF widths_at(4), of ?bad hydra_tags]
  have 1: "\<exists>name sz. ReadSoundFontHydra hydra_tags ?bad = Inl (InvalidSize name sz)"
    by fastforce
  let ?good = "tag ''phdr'' @ [0, 0, 0, 0] @ tag ''pbag'' @ [8, 0, 0, 0] @ [1, 0, 2, 0, 3, 0, 4, 0]
      @ tag ''pmod'' @ [0, 0, 0, 0] @ tag ''pgen'' @ [0, 0, 0, 0] @ tag ''inst'' @ [0, 0, 0, 0]
      @ tag ''ibag'' @ [0, 0, 0, 0] @ tag ''imod'' @ [0, 0, 0, 0] @ tag ''igen'' @ [0, 0, 0, 0]
      @ tag ''shdr'' @ [0, 0, 0, 0 :: byte]"
  let ?h = "sound_init\<lparr>PBag := [\<lparr>GenIndex = 1, ModIndex = 2\<rparr>, \<lparr>GenIndex = 3, ModIndex = 4\<rparr>]\<rparr>"
  have ok: "ReadSoundFontHydra hydra_tags ?good = Inr ?h" by code_simp
  have l: "last_chunk (tag ''pbag'') (read_chunks ?good)
             = Some \<lparr>id_ck = tag ''pbag'', size_ck = 8, data_ck = [1, 0, 2, 0, 3, 0, 4, 0]\<rparr>"
    by code_simp
  from hydra_record_width_check [OF widths_at(2), of ?good hydra_tags] ok l
  have 2: "\<exists>a. array_of (tag ''pbag'') ?h = Some a \<and> array_length a = 8 div 4"
    by fastforce
  from 1 2 show ?thesis by blast
qed

text \<open>
  Claim C6 (all nine ids are mandatory). A successful decode has seen each of the
  nine ids. For a list of well-formed chunks with valid sizes: if exactly one of the
  nine ids is absent, the decode fails with the missing-chunk error naming that id;
  if some are absent, it fails with the missing-chunk error naming one of the absent
  ids; if none is absent (in particular for exactly one chunk of each id and nothing
  else), the decode succeeds.
\<close>

theorem hydra_all_nine_required:
  assumes keys: "range_order keys pdtaChunks_init"
  shows "(\<forall>h. ReadSoundFontHydra keys r = Inr h \<longrightarrow> set hydra_tags \<subseteq> id_ck ` set (read_chunks r))
       \<and> ((\<forall>ck\<in>set cks. wf_chunk ck \<and> sized_ok ck) \<longrightarrow>
            (\<forall>t. set hydra_tags - id_ck ` set cks = {t} \<longrightarrow>
                ReadSoundFontHydra keys (chunk_list_bytes cks) = Inl (MissingChunk t))
          \<and> (\<not> set hydra_tags \<subseteq> id_ck ` set cks \<longrightarrow>
                (\<exists>t\<in>set hydra_tags - id_ck ` set cks.
                    ReadSoundFontHydra keys (chunk_list_bytes cks) = Inl (MissingChunk t)))
          \<and> (set hydra_tags \<subseteq> id_ck ` set cks \<longrightarrow>
                (\<exists>h. ReadSoundFontHydra keys (chunk_list_bytes cks) = Inr h)))"
proof -
  have first: "\<forall>h. ReadSoundFontHydra keys r = Inr h \<longrightarrow> set hydra_tags \<subseteq> id_ck ` set (read_chunks r)"
    using hydra_success_tags [OF _ keys, of r] by blast
  have second: "(\<forall>t. set hydra_tags - id_ck ` set cks = {t} \<longrightarrow>
                ReadSoundFontHydra keys (chunk_list_bytes cks) = Inl (MissingChunk t))
          \<and> (\<not> set hydra_tags \<subseteq> id_ck ` set cks \<longrightarrow>
                (\<exists>t\<in>set hydra_tags - id_ck ` set cks.
                    ReadSoundFontHydra keys (chunk_list_bytes cks) = Inl (MissingChunk t)))
          \<and> (set hydra_tags \<subseteq> id_ck ` set cks \<longrightarrow>
                (\<exists>h. ReadSoundFontHydra keys (chunk_list_bytes cks) = Inr h))"
    if ok: "\<forall>ck\<in>set cks. wf_chunk ck \<and> sized_ok ck"
  proof -
    from ok have wf: "\<forall>ck\<in>set cks. wf_chunk ck" by simp
    from ok obtain sound m where m: "hydra_chunks cks sound_init pdtaChunks_init = Inr (sound, m)"
      and seen: "\<And>t. m t = Some False \<longleftrightarrow> t \<in> set hydra_tags - id_ck ` set cks"
      using hydra_list_seen [of cks] by auto
    from keys have ks: "set keys = set hydra_tags" by (simp add: range_order_init)
    have missing: "\<exists>t\<in>set hydra_tags - id_ck ` set cks.
        ReadSoundFontHydra keys (chunk_list_bytes cks) = Inl (MissingChunk t)"
      if "\<not> set hydra_tags \<subseteq> id_ck ` set cks"
    proof -
      from that ks seen have "\<not> (\<forall>k\<in>set keys. m k \<noteq> Some False)" by auto
      then obtain e where e: "range_missing keys m = Some e"
        by (cases "range_missing keys m") (simp_all add: range_missing_None)
      from range_missing_Some [OF e] obtain k where "m k = Some False" "e = MissingChunk k" by auto
      with e m seen show ?thesis by (auto simp add: ReadSoundFontHydra_list [OF wf])
    qed
    have present: "\<exists>h. ReadSoundFontHydra keys (chunk_list_bytes cks) = Inr h"
      if "set hydra_tags \<subseteq> id_ck ` set cks"
    proof -
      from that ks seen have "\<forall>k\<in>set keys. m k \<noteq> Some False" by auto
      then have "range_missing keys m = None" by (simp add: range_missing_None)
      with m show ?thesis by (simp add: ReadSoundFontHydra_list [OF wf])
    qed
    have single: "ReadSoundFontHydra keys (chunk_list_bytes cks) = Inl (MissingChunk t)"
      if t: "set hydra_tags - id_ck ` set cks = {t}" for t
    proof -
      from t have "\<not> set hydra_tags \<subseteq> id_ck ` set cks" by auto
      from missing [OF this] t show ?thesis by auto
    qed
    from missing present single show ?thesis by blast
  qed
  from first second show ?thesis by blast
qed

theorem hydra_all_nine_required_witness:
  "ReadSoundFontHydra (rev hydra_tags)
     (chunk_list_bytes [empty_chunk ''phdr'', empty_chunk ''pbag'', empty_chunk ''pmod'',
        empty_chunk ''pgen'', empty_chunk ''inst'', empty_chunk ''ibag'', empty_chunk ''imod'',
        empty_chunk ''igen''])
     = Inl (MissingChunk (tag ''shdr''))
   \<and> (\<exists>h. ReadSoundFontHydra (rev hydra_tags)
     (chunk_list_bytes [empty_chunk ''phdr'', empty_chunk ''pbag'', empty_chunk ''pmod'',
        empty_chunk ''pgen'', empty_chunk ''inst'', empty_chunk ''ibag'', empty_chunk ''imod'',
        empty_chunk ''igen'', empty_chunk ''shdr'']) = Inr h)"
proof -
  let ?eight = "[empty_chunk ''phdr'', empty_chunk ''pbag'', empty_chunk ''pmod'',
        empty_chunk ''pgen'', empty_chunk ''inst'', empty_chunk ''ibag'', empty_chunk ''imod'',
        empty_chunk ''igen'']"
  let ?nine = "?eight @ [empty_chunk ''shdr'']"
  have keys: "range_order (rev hydra_tags) pdtaChunks_init"
    using range_order_hydra_tags by (simp add: range_order_init)
  have ok8: "\<forall>ck\<in>set ?eight. wf_chunk ck \<and> sized_ok ck" by code_simp
  have ok9: "\<forall>ck\<in>set ?nine. wf_chunk ck \<and> sized_ok ck" by code_simp
  have m8: "set hydra_tags - id_ck ` set ?eight = {tag ''shdr''}" by code_simp
  have m9: "set hydra_tags \<subseteq> id_ck ` set ?nine" by code_simp
  from hydra_all_nine_required [OF keys, of _ ?eight] ok8 m8
  have "ReadSoundFontHydra (rev hydra_tags) (chunk_list_bytes ?eight) = Inl (MissingChunk (tag ''shdr''))"
    by blast
  moreover from hydra_all_nine_required [OF keys, of _ ?nine] ok9 m9
  have "\<exists>h. ReadSoundFontHydra (rev hydra_tags) (chunk_list_bytes ?nine) = Inr h"
    by blast
  ultimately show ?thesis by simp
qed

text \<open>
  Claim C9 (decode and re-encode). For a well-formed chunk with one of the nine ids
  whose length is a multiple of the record width, the decoder returns an array of
  length / width records, and writing these records in the layout of section 4.3
  gives back the data of the chunk, byte for byte.
\<close>

theorem hydra_record_round_trip:
  assumes "wf_chunk ck" and "map_of hydra_widths (id_ck ck) = Some w"
    and "unat (size_ck ck) mod w = 0"
  shows "\<exists>sound' a. hydra_chunk ck sound = Inr sound' \<and> array_of (id_ck ck) sound' = Some a
           \<and> array_length a = unat (size_ck ck) div w \<and> encode_array a = data_ck ck"
  using hydra_chunk_ok [OF assms, of sound] by blast

theorem hydra_record_round_trip_witness:
  "\<exists>sound' a. hydra_chunk \<lparr>id_ck = tag ''shdr'', size_ck = 46, data_ck = map of_nat [1 ..< 47]\<rparr> sound_init
        = Inr sound'
     \<and> array_of (tag ''shdr'') sound' = Some a \<and> array_length a = 46 div 46
     \<and> encode_array a = map of_nat [1 ..< 47]"
proof -
  let ?ck = "\<lparr>id_ck = tag ''shdr'', size_ck = 46, data_ck = map of_nat [1 ..< 47]\<rparr>"
  have wf: "wf_chunk ?ck" by code_simp
  have w: "map_of hydra_widths (id_ck ?ck) = Some 46" by (simp add: widths_at)
  have m: "unat (size_ck ?ck) mod 46 = 0" by simp
  from hydra_record_round_trip [OF wf w m, of sound_init] show ?thesis by simp
qed



section \<open>The Info decoder: claims\<close>

lemma Expect_INFO: "Expect (tag ''INFO'' @ r) (tag ''INFO'') = Inr (True, r)"
  by (simp add: Expect_def ReadFull_def length_tag)

lemma info_chunks_seen:
  "info_chunks cks info m = Inr (info', m') \<Longrightarrow>
     m' t = (if m t \<noteq> None \<and> t \<in> id_ck ` set cks then Some True else m t)"
proof (induction cks arbitrary: info m)
  case Nil
  then show ?case by simp
next
  case (Cons c cks)
  show ?case
  proof (cases "m (id_ck c)")
    case None
    with Cons.prems have "info_chunks cks info m = Inr (info', m')" by simp
    from Cons.IH [OF this] None show ?thesis by auto
  next
    case (Some seen)
    with Cons.prems obtain i1 where "info_chunk c info = Inr i1"
      and rest: "info_chunks cks i1 (m(id_ck c \<mapsto> True)) = Inr (info', m')"
      by (auto split: sum.splits if_splits)
    from Cons.IH [OF rest] Some show ?thesis by auto
  qed
qed

lemma infoChunks_init_ifil_isng:
  "infoChunks_init (tag ''ifil'') = Some False" "infoChunks_init (tag ''isng'') = Some False"
  by (simp_all add: infoChunks_init_def tag_def)
text \<open>
  Claim C7 (\<open>ifil\<close> is required, \<open>isng\<close> has a default). Whenever the chunk loop
  of the Info decoder reaches the end of its input: if the input holds no \<open>ifil\<close>
  chunk the decode fails with the error that \<open>ifil\<close> is missing; if it holds an
  \<open>ifil\<close> chunk and no \<open>isng\<close> chunk the decode succeeds and the sound engine is
  the literal \<open>EMU8000\<close>.
\<close>

theorem info_ifil_required_isng_default:
  assumes loop: "info_loop r info_init infoChunks_init = Inr (info, m)"
  shows "(tag ''ifil'' \<notin> id_ck ` set (read_chunks r) \<longrightarrow>
            ReadSoundFontInfo (tag ''INFO'' @ r) = Inl IfilMissing)
       \<and> (tag ''ifil'' \<in> id_ck ` set (read_chunks r) \<and> tag ''isng'' \<notin> id_ck ` set (read_chunks r) \<longrightarrow>
            ReadSoundFontInfo (tag ''INFO'' @ r) = Inr (info\<lparr>Engine := ''EMU8000''\<rparr>))"
proof -
  from loop have "info_chunks (read_chunks r) info_init infoChunks_init = Inr (info, m)"
    by (auto simp add: info_loop_chunks split: sum.splits if_splits)
  note seen = info_chunks_seen [OF this]
  have ifil: "m (tag ''ifil'') = Some True \<longleftrightarrow> tag ''ifil'' \<in> id_ck ` set (read_chunks r)"
    using seen [of "tag ''ifil''"] by (simp add: infoChunks_init_ifil_isng)
  have isng: "m (tag ''isng'') = Some True \<longleftrightarrow> tag ''isng'' \<in> id_ck ` set (read_chunks r)"
    using seen [of "tag ''isng''"] by (simp add: infoChunks_init_ifil_isng)
  from loop ifil isng show ?thesis
    by (simp add: ReadSoundFontInfo_def Expect_INFO)
qed

theorem info_ifil_required_isng_default_witness:
  "ReadSoundFontInfo (tag ''INFO'' @ tag ''isng'' @ [2, 0, 0, 0] @ [65, 0]) = Inl IfilMissing
   \<and> (\<exists>info. ReadSoundFontInfo (tag ''INFO'' @ tag ''ifil'' @ [4, 0, 0, 0] @ [2, 0, 1, 0]
                 @ tag ''INAM'' @ [2, 0, 0, 0] @ [66, 0]) = Inr info
          \<and> Engine info = ''EMU8000'')"
proof -
  let ?r1 = "tag ''isng'' @ [2, 0, 0, 0] @ [65, 0 :: byte]"
  let ?r2 = "tag ''ifil'' @ [4, 0, 0, 0] @ [2, 0, 1, 0] @ tag ''INAM'' @ [2, 0, 0, 0] @ [66, 0 :: byte]"
  have "case info_loop ?r1 info_init infoChunks_init of Inl e \<Rightarrow> False | Inr x \<Rightarrow> True"
    by code_simp
  then obtain i1 m1 where l1: "info_loop ?r1 info_init infoChunks_init = Inr (i1, m1)"
    by (auto split: sum.splits)
  have n1: "tag ''ifil'' \<notin> id_ck ` set (read_chunks ?r1)" by code_simp
  have "case info_loop ?r2 info_init infoChunks_init of Inl e \<Rightarrow> False | Inr x \<Rightarrow> True"
    by code_simp
  then obtain i2 m2 where l2: "info_loop ?r2 info_init infoChunks_init = Inr (i2, m2)"
    by (auto split: sum.splits)
  have n2: "tag ''ifil'' \<in> id_ck ` set (read_chunks ?r2) \<and> tag ''isng'' \<notin> id_ck ` set (read_chunks ?r2)"
    by code_simp
  from info_ifil_required_isng_default [OF l1] n1
  have "ReadSoundFontInfo (tag ''INFO'' @ ?r1) = Inl IfilMissing" by blast
  moreover from info_ifil_required_isng_default [OF l2] n2
  have "ReadSoundFontInfo (tag ''INFO'' @ ?r2) = Inr (i2\<lparr>Engine := ''EMU8000''\<rparr>)" by blast
  ultimately show ?thesis by simp
qed

section \<open>Truncated chunks\<close>

text \<open>
  What \<open>parse\<close> returns on a chunk cut after its first \<open>n\<close> bytes: \<open>EOF\<close> when
  the cut falls before the id, between id and size, or between size and data;
  \<open>ErrUnexpectedEOF\<close> when it falls inside one of the three. The Hydra decoder
  on a list whose last chunk is cut takes the first three cuts for the end of the
  list.
\<close>

lemma parse_truncated:
  assumes wf: "wf_chunk ck" and n: "n < length (chunk_bytes ck)"
  shows "parse (take n (chunk_bytes ck))
           = Inl (if n = 0 \<or> n = 4 \<or> n = 8 then EOF else ErrUnexpectedEOF)"
proof -
  from wf have id: "length (id_ck ck) = 4" and d: "length (data_ck ck) = unat (size_ck ck)"
    by (simp_all add: wf_chunk_def)
  from n id d have n': "n < 8 + unat (size_ck ck)"
    by (simp add: chunk_bytes_def length_le32)
  consider "n = 0" | "0 < n" "n < 4" | "n = 4" | "4 < n" "n < 8" | "8 \<le> n"
    by linarith
  then show ?thesis
  proof cases
    case 1
    then show ?thesis by (simp add: parse_Nil)
  next
    case 2
    with id show ?thesis
      by (auto simp add: parse_def ReadFull_def chunk_bytes_def)
  next
    case 3
    with id show ?thesis
      by (simp add: parse_def ReadFull_def chunk_bytes_def)
  next
    case 4
    let ?x = "take (n - 4) (le32 (size_ck ck))"
    from 4 id have tk: "take n (chunk_bytes ck) = id_ck ck @ ?x"
      by (simp add: chunk_bytes_def length_le32)
    from 4 have "length ?x = n - 4" by (simp add: length_le32)
    with 4 have "ReadFull ?x 4 = Inl ErrUnexpectedEOF"
      by (auto simp add: ReadFull_def)
    with id have "parse (id_ck ck @ ?x) = Inl ErrUnexpectedEOF"
      by (simp add: parse_def ReadFull_append)
    with 4 tk show ?thesis by simp
  next
    case 5
    then have tk: "take n (chunk_bytes ck)
        = id_ck ck @ le32 (size_ck ck) @ take (n - 8) (data_ck ck)"
      using id by (simp add: chunk_bytes_def length_le32)
    let ?y = "take (n - 8) (data_ck ck)"
    from 5 n' d have y: "length ?y = n - 8" "n - 8 < unat (size_ck ck)" by simp_all
    then have "ReadFull ?y (unat (size_ck ck)) = Inl (if n = 8 then EOF else ErrUnexpectedEOF)"
      using 5 by (auto simp add: ReadFull_def)
    with id have "parse (id_ck ck @ le32 (size_ck ck) @ ?y)
        = Inl (if n = 8 then EOF else ErrUnexpectedEOF)"
      by (simp add: parse_def ReadFull_append length_le32 Uint32_le32_Nil)
    with 5 tk show ?thesis by auto
  qed
qed

lemma hydra_truncated_tail:
  assumes cks: "\<forall>c\<in>set cks. wf_chunk c" and wf: "wf_chunk ck"
    and n: "n < length (chunk_bytes ck)"
  shows "ReadSoundFontHydra keys (chunk_list_bytes cks @ take n (chunk_bytes ck)) =
     (if n = 0 \<or> n = 4 \<or> n = 8 then ReadSoundFontHydra keys (chunk_list_bytes cks)
      else (case hydra_chunks cks sound_init pdtaChunks_init of
              Inl err \<Rightarrow> Inl err
            | Inr res \<Rightarrow> Inl ErrUnexpectedEOF))"
proof -
  let ?e = "if n = 0 \<or> n = 4 \<or> n = 8 then EOF else ErrUnexpectedEOF"
  from read_chunks_bytes [OF cks parse_truncated [OF wf n]]
  have rc: "read_chunks (chunk_list_bytes cks @ take n (chunk_bytes ck)) = cks"
    and rs: "read_stop (chunk_list_bytes cks @ take n (chunk_bytes ck)) = ?e"
    by simp_all
  from read_chunks_bytes [OF cks parse_Nil]
  have rc0: "read_chunks (chunk_list_bytes cks) = cks"
    and rs0: "read_stop (chunk_list_bytes cks) = EOF"
    by simp_all
  show ?thesis
  proof (cases "n = 0 \<or> n = 4 \<or> n = 8")
    case True
    then have e: "?e = EOF" by simp
    have "ReadSoundFontHydra keys (chunk_list_bytes cks @ take n (chunk_bytes ck))
        = ReadSoundFontHydra keys (chunk_list_bytes cks)"
      unfolding ReadSoundFontHydra_chunks rc rs rc0 rs0 e ..
    with True show ?thesis by (simp only: if_True)
  next
    case False
    then have e: "?e = ErrUnexpectedEOF" by simp
    have "ReadSoundFontHydra keys (chunk_list_bytes cks @ take n (chunk_bytes ck))
        = (case hydra_chunks cks sound_init pdtaChunks_init of
              Inl err \<Rightarrow> Inl err
            | Inr res \<Rightarrow> Inl ErrUnexpectedEOF)"
      unfolding ReadSoundFontHydra_chunks rc rs e by (simp split: sum.splits)
    with False show ?thesis by (simp only: if_False)
  qed
qed


text \<open>
  Claim C4 (a truncated chunk is an error, never the end of the list). \<open>parse\<close>
  fails on every truncated chunk, but with \<open>EOF\<close> when the input stops exactly
  after the four id bytes, or after the size with no byte of a non-empty payload,
  and both list decoders take \<open>EOF\<close> for the end of the list. So an Info list
  that ends in the id \<open>isng\<close> and a size of 5 without payload decodes
  successfully (with the default engine), and a Hydra list of nine empty chunks
  followed by the header of a \<open>shdr\<close> chunk of 46 bytes without payload decodes
  successfully.
\<close>

theorem truncated_chunk_ends_list:
  "parse (tag ''isng'') = Inl EOF
   \<and> parse (tag ''isng'' @ [5, 0, 0, 0]) = Inl EOF
   \<and> parse (tag ''isng'' @ [5, 0, 0, 0] @ [69]) = Inl ErrUnexpectedEOF
   \<and> ReadSoundFontInfo (tag ''INFO'' @ tag ''ifil'' @ [4, 0, 0, 0] @ [2, 0, 1, 0]
         @ tag ''isng'' @ [5, 0, 0, 0])
       = Inr (info_init\<lparr>SfVersion := \<lparr>Major = 2, Minor = 1\<rparr>, Engine := ''EMU8000''\<rparr>)
   \<and> ReadSoundFontHydra hydra_tags
        (tag ''phdr'' @ [0, 0, 0, 0] @ tag ''pbag'' @ [0, 0, 0, 0] @ tag ''pmod'' @ [0, 0, 0, 0]
         @ tag ''pgen'' @ [0, 0, 0, 0] @ tag ''inst'' @ [0, 0, 0, 0] @ tag ''ibag'' @ [0, 0, 0, 0]
         @ tag ''imod'' @ [0, 0, 0, 0] @ tag ''igen'' @ [0, 0, 0, 0] @ tag ''shdr'' @ [0, 0, 0, 0]
         @ tag ''shdr'' @ [46, 0, 0, 0])
       = Inr sound_init"
  by code_simp

end
